theory Spec2Isabelle
  imports Main
begin

section \<open>Data model (lib/types.ts)\<close>

text \<open>
  The front end is a React application. Its state lives in \<open>useState\<close> cells, which are
  modelled as record fields passed explicitly; a handler is a function from the state before
  to the state after. Strings are \<open>string\<close>; \<open>string | null\<close> is \<open>string option\<close>. The field
  \<open>id_\<close> of a highlight segment is \<open>seg_id\<close> here.
\<close>

record HighlightSegment =
  seg_id :: string
  start_time :: string
  end_time :: string
  title :: string

record HighlightsResponse =
  video_id :: string
  resp_highlights :: "HighlightSegment list"
  total_count :: nat

record GenerateVideoRequest =
  video_url :: string
  req_highlights :: "HighlightSegment list"

text \<open>The status tags \<open>"queued" | "downloading" | "generating" | "finished" | "error"\<close>.\<close>

datatype job_status = Queued | Downloading | Generating | Finished | Error

record GenerateVideoResponse =
  gen_job_id :: string
  gen_status :: job_status
  gen_message :: string

text \<open>
  \<open>progress\<close> is a JSON number that the code only stores and displays; it is carried as an
  integer.
\<close>

record JobStreamUpdate =
  job_id :: string
  status :: job_status
  progress :: "int option"
  current_task :: "string option"
  finished_videos :: "string list"
  error_message :: "string option"
  created_at :: string
  updated_at :: string

text \<open>
  What reading a property of a plain object that holds strings can give: a string, a member
  inherited from \<open>Object.prototype\<close> (an object or a function, which is truthy and not a
  string), or \<open>undefined\<close>. The type \<open>ReelUploadRequest\<close> declares \<open>title\<close> a string, but the
  value the code puts there is what it read from such an object.
\<close>

datatype js_value = Str string | Inherited | Undefined

record ReelUploadRequest =
  file_path :: string
  reel_title :: js_value

datatype AppStep =
  url_submit | highlights_select | job_status | upload_reels | dm_followers | complete

record AppState =
  currentStep :: AppStep
  highlights :: "HighlightSegment list"
  selectedHighlights :: "HighlightSegment list"
  videoUrl :: string
  language :: string
  noAutoSubs :: bool
  jobId :: "string option"
  finishedVideos :: "string list"
  reelLinks :: "string list"

text \<open>
  What a rejected remote call throws: an \<open>APIError\<close> (status code and message, raised by
  \<open>fetchJSON\<close> on a non-success response), another \<open>Error\<close> (a network failure), or a value
  that is not an \<open>Error\<close>. The three \<open>catch\<close> branches of every caller follow this split.
\<close>

datatype thrown = APIError nat string | OtherError string | NonError

section \<open>The status stream of a job (JobStatusStream, the body of \<open>useEffect\<close>)\<close>

text \<open>
  One run of the effect owns the variables \<open>retryCount\<close>, \<open>retryTimeout\<close> and
  \<open>eventSource\<close>. The \<open>EventSource\<close> objects it creates and the timers it sets are kept in
  two lists; an object's identity is its index. \<open>closed\<close> records that \<open>close()\<close> has been
  called on an \<open>EventSource\<close>: the browser dispatches no event to a closed one. A timer is
  pending until it fires or is cleared. \<open>cleanups\<close> counts the runs of the function the
  effect returns; it is not a variable of the code.
\<close>

definition API_BASE_URL :: string where
  "API_BASE_URL = ''http://localhost:8001''"

record EventSource =
  url :: string
  closed :: bool

definition createJobStream :: "string \<Rightarrow> EventSource" where
  "createJobStream j = \<lparr>url = API_BASE_URL @ ''/generate/'' @ j @ ''/stream'', closed = False\<rparr>"

datatype timer_state = Pending | Fired | Cleared

record closure =
  retryCount :: nat
  retryTimeout :: "nat option"
  eventSource :: nat
  sources :: "EventSource list"
  timers :: "(nat \<times> timer_state) list"
  stream_job :: string
  cleanups :: nat

definition maxRetries :: nat where
  "maxRetries = 3"

text \<open>The calls of the two state setters of the component that a handler makes, in order.\<close>

datatype setter = SetStatus JobStreamUpdate | SetError "string option"

definition digit_char :: "nat \<Rightarrow> char" where
  "digit_char n = ''0123456789'' ! n"

fun string_of_nat :: "nat \<Rightarrow> string" where
  "string_of_nat n =
     (if n < 10 then [digit_char n] else string_of_nat (n div 10) @ [digit_char (n mod 10)])"

definition es_close :: "nat \<Rightarrow> closure \<Rightarrow> closure" where
  "es_close c s =
     (if c < length (sources s)
      then s\<lparr>sources := (sources s)[c := (sources s ! c)\<lparr>closed := True\<rparr>]\<rparr>
      else s)"

definition setTimeout :: "nat \<Rightarrow> closure \<Rightarrow> closure \<times> nat" where
  "setTimeout ms s = (s\<lparr>timers := timers s @ [(ms, Pending)]\<rparr>, length (timers s))"

definition clearTimeout :: "nat \<Rightarrow> closure \<Rightarrow> closure" where
  "clearTimeout t s =
     (if t < length (timers s) \<and> snd (timers s ! t) = Pending
      then s\<lparr>timers := (timers s)[t := (fst (timers s ! t), Cleared)]\<rparr>
      else s)"

text \<open>\<open>connectToStream\<close> creates the \<open>EventSource\<close>, installs the three handlers and returns it.\<close>

definition connectToStream :: "closure \<Rightarrow> closure \<times> nat" where
  "connectToStream s =
     (s\<lparr>sources := sources s @ [createJobStream (stream_job s)]\<rparr>, length (sources s))"

definition onopen :: "closure \<Rightarrow> closure \<times> setter list" where
  "onopen s = (s\<lparr>retryCount := 0\<rparr>, [SetError None])"

text \<open>
  The argument of \<open>onmessage\<close> is the result of \<open>parseJobStreamData(event.data)\<close>, with
  \<open>None\<close> when \<open>JSON.parse\<close> throws.
\<close>

definition onmessage :: "closure \<Rightarrow> JobStreamUpdate option \<Rightarrow> closure \<times> setter list" where
  "onmessage s d =
     (case d of
        Some u \<Rightarrow> (s, [SetStatus u, SetError None])
      | None \<Rightarrow> (s, [SetError (Some ''Failed to parse status update'')]))"

definition onerror :: "closure \<Rightarrow> nat \<Rightarrow> closure \<times> setter list" where
  "onerror s c =
     (let s1 = es_close c s in
      if retryCount s1 < maxRetries then
        (let n = retryCount s1 + 1;
             (s2, t) = setTimeout (2000 * n) (s1\<lparr>retryCount := n\<rparr>)
         in (s2\<lparr>retryTimeout := Some t\<rparr>,
             [SetError (Some (''Connection failed, retrying ('' @ string_of_nat n @ ''/''
                 @ string_of_nat maxRetries @ '')...''))]))
      else (s1, [SetError (Some ''Connection to status stream failed after multiple attempts'')]))"

text \<open>
  The events of the environment: the three events of an \<open>EventSource\<close> and the expiry of a
  timer. An event of a closed \<open>EventSource\<close>, or of one that does not exist, is not
  dispatched; a timer that is not pending does not fire. The callback of the timer calls
  \<open>connectToStream\<close> and drops the object it returns.
\<close>

datatype stream_event =
  OnOpen nat | OnMessage nat "JobStreamUpdate option" | OnError nat | OnTimeout nat

definition live :: "closure \<Rightarrow> nat \<Rightarrow> bool" where
  "live s c = (c < length (sources s) \<and> \<not> closed (sources s ! c))"

definition pending :: "closure \<Rightarrow> nat \<Rightarrow> bool" where
  "pending s t = (t < length (timers s) \<and> snd (timers s ! t) = Pending)"

fun stream_step :: "closure \<Rightarrow> stream_event \<Rightarrow> closure \<times> setter list" where
  "stream_step s (OnOpen c) = (if live s c then onopen s else (s, []))"
| "stream_step s (OnMessage c d) = (if live s c then onmessage s d else (s, []))"
| "stream_step s (OnError c) = (if live s c then onerror s c else (s, []))"
| "stream_step s (OnTimeout t) =
     (if pending s t
      then (fst (connectToStream (s\<lparr>timers := (timers s)[t := (fst (timers s ! t), Fired)]\<rparr>)), [])
      else (s, []))"

fun stream_run :: "closure \<Rightarrow> stream_event list \<Rightarrow> closure \<times> setter list" where
  "stream_run s [] = (s, [])"
| "stream_run s (e # es) =
     (let (s1, out1) = stream_step s e; (s2, out2) = stream_run s1 es in (s2, out1 @ out2))"

text \<open>
  The effect: nothing for an empty \<open>jobId\<close>; otherwise the variables are initialised and
  the first connection is made and kept in \<open>eventSource\<close>.
\<close>

definition effect_init :: "string \<Rightarrow> closure" where
  "effect_init j =
     \<lparr>retryCount = 0, retryTimeout = None, eventSource = 0, sources = [], timers = [],
      stream_job = j, cleanups = 0\<rparr>"

definition useEffect :: "string \<Rightarrow> closure option" where
  "useEffect j =
     (if j = [] then None
      else (let (s, es) = connectToStream (effect_init j) in Some (s\<lparr>eventSource := es\<rparr>)))"

text \<open>
  The function the effect returns: it clears the timer held in \<open>retryTimeout\<close>, when one
  has been set, and closes the \<open>EventSource\<close> held in \<open>eventSource\<close>.
\<close>

definition cleanup :: "closure \<Rightarrow> closure" where
  "cleanup s =
     (let s1 = (case retryTimeout s of Some t \<Rightarrow> clearTimeout t s | None \<Rightarrow> s);
          s2 = es_close (eventSource s1) s1
      in s2\<lparr>cleanups := cleanups s2 + 1\<rparr>)"

text \<open>
  Auxiliary notions for stating the properties: the numbers of \<open>EventSource\<close> objects not yet
  closed and of timers still pending; a closure is quiet when both are zero. The two kinds of
  message \<open>onerror\<close> passes to \<open>setError\<close>. \<open>failures4\<close> is the sequence of events in which the
  connection \<open>c\<close> fails and each of the three reconnections that follow fails as well, no
  connection being acknowledged in between.
\<close>

definition n_live :: "closure \<Rightarrow> nat" where
  "n_live s = length (filter (\<lambda>e. \<not> closed e) (sources s))"

definition n_pending :: "closure \<Rightarrow> nat" where
  "n_pending s = length (filter (\<lambda>t. snd t = Pending) (timers s))"

definition quiet :: "closure \<Rightarrow> bool" where
  "quiet s = (n_live s = 0 \<and> n_pending s = 0)"

definition terminal_error :: setter where
  "terminal_error = SetError (Some ''Connection to status stream failed after multiple attempts'')"

definition retry_error :: "nat \<Rightarrow> setter" where
  "retry_error n =
     SetError (Some (''Connection failed, retrying ('' @ string_of_nat n @ ''/''
        @ string_of_nat maxRetries @ '')...''))"

definition failures4 :: "closure \<Rightarrow> nat \<Rightarrow> stream_event list" where
  "failures4 s c =
     (let n = length (sources s); t = length (timers s)
      in [OnError c, OnTimeout t, OnError n, OnTimeout (t + 1), OnError (n + 1),
          OnTimeout (t + 2), OnError (n + 2)])"

text \<open>The closure after the effect has run for job \<open>j\<close>, the events \<open>evs\<close> and then the cleanup.\<close>

definition released_after :: "string \<Rightarrow> stream_event list \<Rightarrow> closure option" where
  "released_after j evs = map_option (\<lambda>s. cleanup (fst (stream_run s evs))) (useEffect j)"

definition example_update :: JobStreamUpdate where
  "example_update =
     \<lparr>job_id = ''j1'', status = Generating, progress = Some 40, current_task = None,
      finished_videos = [], error_message = None, created_at = ''t0'', updated_at = ''t1''\<rparr>"

text \<open>
  For the release: \<open>no_timeout\<close> holds of the events other than the expiry of a timer;
  \<open>pristine\<close> describes a closure in which no reconnection has been made, so that its only
  connection is the one in \<open>eventSource\<close> and its only timer, if any, the one in
  \<open>retryTimeout\<close>. \<open>example_leaked\<close> is the closure of the scenario in which the release comes
  after a reconnection.
\<close>

fun no_timeout :: "stream_event \<Rightarrow> bool" where
  "no_timeout (OnTimeout t) = False"
| "no_timeout e = True"

definition pristine :: "closure \<Rightarrow> bool" where
  "pristine s =
     (length (sources s) = 1 \<and> eventSource s = 0
      \<and> (timers s = [] \<and> retryTimeout s = None
         \<or> length (timers s) = 1 \<and> retryTimeout s = Some 0 \<and> closed (sources s ! 0)))"

definition example_leaked :: closure where
  "example_leaked =
     \<lparr>retryCount = 0, retryTimeout = Some 0, eventSource = 0,
      sources = [\<lparr>url = ''http://localhost:8001/generate/j1/stream'', closed = True\<rparr>,
                 \<lparr>url = ''http://localhost:8001/generate/j1/stream'', closed = False\<rparr>],
      timers = [(2000, Fired)], stream_job = ''j1'', cleanups = 1\<rparr>"

section \<open>The workflow (StepContainer, HighlightsSelector, JobStatusStream)\<close>

text \<open>
  \<open>StepContainer\<close> holds the campaign state \<open>state\<close> and its own \<open>error\<close>. Each handler calls
  \<open>setState\<close> with an updater and \<open>setError(null)\<close>; the updaters are the functions below.
\<close>

definition initialState :: AppState where
  "initialState =
     \<lparr>currentStep = url_submit, highlights = [], selectedHighlights = [], videoUrl = [],
      language = ''en'', noAutoSubs = False, jobId = None, finishedVideos = [], reelLinks = []\<rparr>"

definition handleHighlightsSuccess ::
  "HighlightsResponse \<Rightarrow> string \<Rightarrow> string \<Rightarrow> bool \<Rightarrow> AppState \<Rightarrow> AppState" where
  "handleHighlightsSuccess d v l n prev =
     prev\<lparr>currentStep := highlights_select, highlights := resp_highlights d, videoUrl := v,
          language := l, noAutoSubs := n\<rparr>"

definition handleBackToUrl :: "AppState \<Rightarrow> AppState" where
  "handleBackToUrl prev = prev\<lparr>currentStep := url_submit, jobId := None\<rparr>"

definition handleBackToHighlights :: "AppState \<Rightarrow> AppState" where
  "handleBackToHighlights prev = prev\<lparr>currentStep := highlights_select, jobId := None\<rparr>"

definition handleRestart :: "AppState \<Rightarrow> AppState" where
  "handleRestart prev = prev\<lparr>currentStep := highlights_select, jobId := None\<rparr>"

definition handleJobComplete :: "string list \<Rightarrow> AppState \<Rightarrow> AppState" where
  "handleJobComplete fv prev = prev\<lparr>currentStep := upload_reels, finishedVideos := fv\<rparr>"

definition handleBackToJobStatus :: "AppState \<Rightarrow> AppState" where
  "handleBackToJobStatus prev = prev\<lparr>currentStep := job_status\<rparr>"

definition handleUploadSuccess :: "string list \<Rightarrow> AppState \<Rightarrow> AppState" where
  "handleUploadSuccess links prev = prev\<lparr>currentStep := dm_followers, reelLinks := links\<rparr>"

definition handleBackToUpload :: "AppState \<Rightarrow> AppState" where
  "handleBackToUpload prev = prev\<lparr>currentStep := upload_reels\<rparr>"

definition handleCampaignComplete :: "AppState \<Rightarrow> AppState" where
  "handleCampaignComplete prev = prev\<lparr>currentStep := complete\<rparr>"

definition handleStartNewCampaign :: "AppState \<Rightarrow> AppState" where
  "handleStartNewCampaign prev = initialState"

text \<open>
  \<open>handleGenerateVideos\<close> is asynchronous. It clears the error and sends the request; when
  the call settles, a response makes it store the selection and the job identifier with the
  updater \<open>generate_resolved\<close>, and a rejection makes it set the error to the message
  \<open>generate_rejected\<close>.
\<close>

definition generate_resolved ::
  "HighlightSegment list \<Rightarrow> GenerateVideoResponse \<Rightarrow> AppState \<Rightarrow> AppState" where
  "generate_resolved sel response prev =
     prev\<lparr>currentStep := job_status, selectedHighlights := sel, jobId := Some (gen_job_id response)\<rparr>"

fun generate_rejected :: "thrown \<Rightarrow> string" where
  "generate_rejected (APIError st m) = ''Failed to start video generation: '' @ m"
| "generate_rejected (OtherError m) = ''Failed to start video generation: '' @ m"
| "generate_rejected NonError = ''An unexpected error occurred while starting video generation.''"

text \<open>
  \<open>HighlightsSelector\<close> keeps the set \<open>selectedIds\<close>; a JavaScript \<open>Set\<close> is a list without
  repetition, in insertion order.
\<close>

definition uniq :: "'a list \<Rightarrow> 'a list" where
  "uniq xs = rev (remdups (rev xs))"

definition toggle :: "'a \<Rightarrow> 'a list \<Rightarrow> 'a list" where
  "toggle x xs = (if x \<in> set xs then removeAll x xs else xs @ [x])"

definition handleGenerate :: "HighlightSegment list \<Rightarrow> string list \<Rightarrow> HighlightSegment list" where
  "handleGenerate hs ids = filter (\<lambda>h. seg_id h \<in> set ids) hs"

text \<open>
  The state of the whole page. Besides the two cells of \<open>StepContainer\<close> it holds: the
  \<open>generateVideos\<close> calls that have not settled, each with the request it sent (the selection
  the continuation will store is the one in the request); the \<open>selectedIds\<close> of
  \<open>HighlightsSelector\<close>; the \<open>status\<close> and \<open>error\<close> of \<open>JobStatusStream\<close>; every run of its
  effect so far, each with the number of the component instance that started it; and the run
  whose cleanup function React currently holds.
\<close>

record ui =
  state :: AppState
  sc_error :: "string option"
  in_flight :: "GenerateVideoRequest list"
  selectedIds :: "string list"
  jss_instance :: nat
  jss_status :: "JobStreamUpdate option"
  jss_error :: "string option"
  jss_effect :: "nat option"
  runs :: "(nat \<times> closure) list"

definition initial_ui :: ui where
  "initial_ui =
     \<lparr>state = initialState, sc_error = None, in_flight = [], selectedIds = [], jss_instance = 0,
      jss_status = None, jss_error = None, jss_effect = None, runs = []\<rparr>"

text \<open>
  \<open>JobStatusStream\<close> is rendered by
  \<open>state.currentStep === "job-status" && state.jobId && <JobStatusStream jobId={state.jobId} .../>\<close>:
  the step must be job-status and \<open>jobId\<close> neither null nor empty.
\<close>

definition job_of :: "AppState \<Rightarrow> string" where
  "job_of a = (case jobId a of None \<Rightarrow> [] | Some j \<Rightarrow> j)"

definition jss_rendered :: "AppState \<Rightarrow> bool" where
  "jss_rendered a = (currentStep a = job_status \<and> job_of a \<noteq> [])"

definition run_effect :: "string \<Rightarrow> ui \<Rightarrow> ui" where
  "run_effect j u =
     (case useEffect j of
        None \<Rightarrow> u\<lparr>jss_effect := None\<rparr>
      | Some c \<Rightarrow> u\<lparr>jss_effect := Some (length (runs u)), runs := runs u @ [(jss_instance u, c)]\<rparr>)"

definition run_cleanup :: "ui \<Rightarrow> ui" where
  "run_cleanup u =
     (case jss_effect u of
        None \<Rightarrow> u
      | Some r \<Rightarrow>
          u\<lparr>jss_effect := None,
            runs := (runs u)[r := (fst (runs u ! r), cleanup (snd (runs u ! r)))]\<rparr>)"

text \<open>
  What React does after the campaign state has changed from \<open>old\<close> to \<open>state u\<close>. A
  component that is no longer rendered is unmounted and its state is gone; one that is newly
  rendered is mounted with its initial state. For \<open>JobStatusStream\<close>: unmounting runs the
  cleanup of its effect; mounting runs the effect; a change of the \<open>jobId\<close> property while it
  stays mounted runs the cleanup and then the effect again, the component state being kept.
\<close>

definition commit :: "AppState \<Rightarrow> ui \<Rightarrow> ui" where
  "commit old u =
     (let new = state u;
          u1 = (if currentStep old = highlights_select \<and> currentStep new = highlights_select
                then u else u\<lparr>selectedIds := []\<rparr>)
      in if jss_rendered old then
           (if jss_rendered new then
              (if job_of new = job_of old then u1 else run_effect (job_of new) (run_cleanup u1))
            else (run_cleanup u1)\<lparr>jss_status := None, jss_error := None\<rparr>)
         else if jss_rendered new then
           run_effect (job_of new)
             (u1\<lparr>jss_instance := jss_instance u1 + 1, jss_status := None, jss_error := None\<rparr>)
         else u1)"

text \<open>A handler of \<open>StepContainer\<close> that calls \<open>setState\<close> with \<open>f\<close> and \<open>setError(null)\<close>.\<close>

definition transition :: "(AppState \<Rightarrow> AppState) \<Rightarrow> ui \<Rightarrow> ui" where
  "transition f u = commit (state u) (u\<lparr>state := f (state u), sc_error := None\<rparr>)"

definition handleGenerateVideos :: "HighlightSegment list \<Rightarrow> ui \<Rightarrow> ui" where
  "handleGenerateVideos sel u =
     u\<lparr>sc_error := None,
       in_flight := in_flight u @ [\<lparr>video_url = videoUrl (state u), req_highlights = sel\<rparr>]\<rparr>"

definition generate_settled :: "nat \<Rightarrow> thrown + GenerateVideoResponse \<Rightarrow> ui \<Rightarrow> ui" where
  "generate_settled i res u =
     (if i < length (in_flight u) then
        (let req = in_flight u ! i;
             u1 = u\<lparr>in_flight := take i (in_flight u) @ drop (Suc i) (in_flight u)\<rparr>
         in case res of
              Inr response \<Rightarrow>
                commit (state u)
                  (u1\<lparr>state := generate_resolved (req_highlights req) response (state u)\<rparr>)
            | Inl e \<Rightarrow> u1\<lparr>sc_error := Some (generate_rejected e)\<rparr>)
      else u)"

text \<open>
  The setters called by a handler of the stream take effect when the component instance that
  started the run is the one mounted; React drops a state update of an unmounted component.
\<close>

fun apply_setter :: "ui \<Rightarrow> setter \<Rightarrow> ui" where
  "apply_setter u (SetStatus d) = u\<lparr>jss_status := Some d\<rparr>"
| "apply_setter u (SetError e) = u\<lparr>jss_error := e\<rparr>"

definition stream_event :: "nat \<Rightarrow> stream_event \<Rightarrow> ui \<Rightarrow> ui" where
  "stream_event r ev u =
     (if r < length (runs u) then
        (let (inst, c) = runs u ! r;
             (c1, out) = stream_step c ev;
             u1 = u\<lparr>runs := (runs u)[r := (inst, c1)]\<rparr>
         in if jss_rendered (state u) \<and> inst = jss_instance u then foldl apply_setter u1 out else u1)
      else u)"

definition truthy :: "string option \<Rightarrow> bool" where
  "truthy x = (case x of None \<Rightarrow> False | Some s \<Rightarrow> s \<noteq> [])"

definition isCompleted :: "JobStreamUpdate option \<Rightarrow> bool" where
  "isCompleted st = (case st of None \<Rightarrow> False | Some d \<Rightarrow> status d = Finished \<or> status d = Error)"

text \<open>
  Which buttons of \<open>JobStatusStream\<close> are on the page: "Try Again" and "Generate More" call
  \<open>onRestart\<close>, "Continue to Upload" calls \<open>onComplete(status.finished_videos)\<close>; "Back" is
  always there.
\<close>

definition restart_offered :: "ui \<Rightarrow> bool" where
  "restart_offered u =
     (case jss_status u of
        None \<Rightarrow> truthy (jss_error u)
      | Some d \<Rightarrow> truthy (error_message d) \<or> isCompleted (Some d))"

definition continue_offered :: "ui \<Rightarrow> bool" where
  "continue_offered u =
     (case jss_status u of
        None \<Rightarrow> False
      | Some d \<Rightarrow> isCompleted (Some d) \<and> status d = Finished \<and> finished_videos d \<noteq> [])"

text \<open>
  The events of the page. \<open>ExtractSucceeded\<close> and \<open>UploadSucceeded\<close> are the calls of
  \<open>onSuccess\<close> that \<open>URLSubmitForm\<close> and \<open>UploadReelsForm\<close> make when their remote call has
  resolved, which may be after the form has left the page; they are accepted in every step.
  \<open>UploadBack\<close>, \<open>DMBack\<close>, \<open>DMComplete\<close> and \<open>StartNew\<close> are clicks in \<open>UploadReelsForm\<close>,
  \<open>DMFollowersForm\<close> and \<open>CampaignComplete\<close>; the state of these components is not part of
  \<open>ui\<close>, and their clicks are accepted whenever the component is rendered. The other clicks
  are those of \<open>HighlightsSelector\<close> and \<open>JobStatusStream\<close>; such a click needs its button
  to be on the page and enabled, and otherwise the event changes nothing.
\<close>

datatype event =
    ExtractSucceeded HighlightsResponse string string bool
  | ToggleHighlight string
  | SelectAll
  | ClearAll
  | SelectorBack
  | SelectorGenerate
  | GenerateSettled nat "thrown + GenerateVideoResponse"
  | StreamEvent nat stream_event
  | StatusBack
  | StatusRestart
  | StatusContinue
  | UploadBack
  | UploadSucceeded "string list"
  | DMBack
  | DMComplete
  | StartNew

fun step :: "ui \<Rightarrow> event \<Rightarrow> ui" where
  "step u (ExtractSucceeded d v l n) = transition (handleHighlightsSuccess d v l n) u"
| "step u (ToggleHighlight i) =
     (if currentStep (state u) = highlights_select \<and> i \<in> set (map seg_id (highlights (state u)))
      then u\<lparr>selectedIds := toggle i (selectedIds u)\<rparr> else u)"
| "step u SelectAll =
     (if currentStep (state u) = highlights_select
         \<and> length (selectedIds u) \<noteq> length (highlights (state u))
      then u\<lparr>selectedIds := uniq (map seg_id (highlights (state u)))\<rparr> else u)"
| "step u ClearAll =
     (if currentStep (state u) = highlights_select \<and> selectedIds u \<noteq> []
      then u\<lparr>selectedIds := []\<rparr> else u)"
| "step u SelectorBack =
     (if currentStep (state u) = highlights_select then transition handleBackToUrl u else u)"
| "step u SelectorGenerate =
     (if currentStep (state u) = highlights_select \<and> selectedIds u \<noteq> []
      then handleGenerateVideos (handleGenerate (highlights (state u)) (selectedIds u)) u else u)"
| "step u (GenerateSettled i res) = generate_settled i res u"
| "step u (StreamEvent r ev) = stream_event r ev u"
| "step u StatusBack =
     (if jss_rendered (state u) then transition handleBackToHighlights u else u)"
| "step u StatusRestart =
     (if jss_rendered (state u) \<and> restart_offered u then transition handleRestart u else u)"
| "step u StatusContinue =
     (if jss_rendered (state u) \<and> continue_offered u
      then transition
             (handleJobComplete (case jss_status u of None \<Rightarrow> [] | Some d \<Rightarrow> finished_videos d)) u
      else u)"
| "step u UploadBack =
     (if currentStep (state u) = upload_reels then transition handleBackToJobStatus u else u)"
| "step u (UploadSucceeded links) = transition (handleUploadSuccess links) u"
| "step u DMBack =
     (if currentStep (state u) = dm_followers then transition handleBackToUpload u else u)"
| "step u DMComplete =
     (if currentStep (state u) = dm_followers then transition handleCampaignComplete u else u)"
| "step u StartNew =
     (if currentStep (state u) = complete then transition handleStartNewCampaign u else u)"

definition run :: "ui \<Rightarrow> event list \<Rightarrow> ui" where
  "run u evs = foldl step u evs"

text \<open>
  The invariant of the data model that claim C2 is about: every chosen segment has the
  identifier of a candidate segment.
\<close>

definition ids :: "HighlightSegment list \<Rightarrow> string set" where
  "ids hs = set (map seg_id hs)"

definition chosen_subset :: "AppState \<Rightarrow> bool" where
  "chosen_subset a = (ids (selectedHighlights a) \<subseteq> ids (highlights a))"

text \<open>
  An event replaces \<open>highlights\<close> when an extraction has completed and when a new campaign is
  started. \<open>keeps_selection u e\<close> says that the list \<open>e\<close> installs still contains the identifiers
  of the segments chosen in \<open>u\<close> and of the selections that generation calls in flight will
  store; \<open>guarded u evs\<close> says so for every event of \<open>evs\<close>, run from \<open>u\<close>.
\<close>

fun keeps_selection :: "ui \<Rightarrow> event \<Rightarrow> bool" where
  "keeps_selection u (ExtractSucceeded d v l n) =
     (ids (selectedHighlights (state u)) \<subseteq> ids (resp_highlights d)
      \<and> list_all (\<lambda>r. ids (req_highlights r) \<subseteq> ids (resp_highlights d)) (in_flight u))"
| "keeps_selection u StartNew =
     (currentStep (state u) \<noteq> complete \<or> list_all (\<lambda>r. req_highlights r = []) (in_flight u))"
| "keeps_selection u e = True"

fun guarded :: "ui \<Rightarrow> event list \<Rightarrow> bool" where
  "guarded u [] = True"
| "guarded u (e # es) = (keeps_selection u e \<and> guarded (step u e) es)"

text \<open>Values for the scenarios of the specification.\<close>

definition example_h1 :: HighlightSegment where
  "example_h1 =
     \<lparr>seg_id = ''h1'', start_time = ''00:00:10,000'', end_time = ''00:01:00,000'', title = ''Hook''\<rparr>"

definition example_h2 :: HighlightSegment where
  "example_h2 =
     \<lparr>seg_id = ''h2'', start_time = ''00:02:00,000'', end_time = ''00:02:30,000'', title = ''Twist''\<rparr>"

definition example_extraction :: event where
  "example_extraction =
     ExtractSucceeded \<lparr>video_id = ''v1'', resp_highlights = [example_h1], total_count = 1\<rparr>
       ''https://youtu.be/v1'' ''en'' False"

definition example_extraction2 :: event where
  "example_extraction2 =
     ExtractSucceeded \<lparr>video_id = ''v2'', resp_highlights = [example_h2], total_count = 1\<rparr>
       ''https://youtu.be/v2'' ''en'' False"

definition example_generated :: event where
  "example_generated =
     GenerateSettled 0 (Inr \<lparr>gen_job_id = ''j1'', gen_status = Queued, gen_message = ''ok''\<rparr>)"

definition example_finished :: JobStreamUpdate where
  "example_finished =
     \<lparr>job_id = ''j1'', status = Finished, progress = None, current_task = None,
      finished_videos = [''out/a.mp4''], error_message = None, created_at = ''t0'',
      updated_at = ''t2''\<rparr>"

text \<open>
  The scenario of the specification up to the terminal update: extraction, selection of
  \<open>h1\<close>, generation started as job \<open>j1\<close>, then the stream opens and delivers a progress update
  and the update \<open>finished\<close> with one artifact.
\<close>

definition example_to_finished :: "event list" where
  "example_to_finished =
     [example_extraction, ToggleHighlight ''h1'', SelectorGenerate, example_generated,
      StreamEvent 0 (OnOpen 0), StreamEvent 0 (OnMessage 0 (Some example_update)),
      StreamEvent 0 (OnMessage 0 (Some example_finished))]"

text \<open>
  Auxiliary invariants. \<open>sel_inv\<close>: the chosen segments, and the selection of every generation
  call in flight, have identifiers of candidate segments. \<open>wf_for a u\<close>: React holds a cleanup
  function exactly when \<open>JobStatusStream\<close> is rendered in the campaign state \<open>a\<close>, and it is
  the cleanup of a run of the effect that has not been cleaned up.
\<close>

definition sel_inv :: "ui \<Rightarrow> bool" where
  "sel_inv u = (chosen_subset (state u)
     \<and> list_all (\<lambda>r. ids (req_highlights r) \<subseteq> ids (highlights (state u))) (in_flight u))"

definition wf_for :: "AppState \<Rightarrow> ui \<Rightarrow> bool" where
  "wf_for a u =
     (case jss_effect u of
        None \<Rightarrow> \<not> jss_rendered a
      | Some r \<Rightarrow> jss_rendered a \<and> r < length (runs u) \<and> cleanups (snd (runs u ! r)) = 0)"

definition effect_wf :: "ui \<Rightarrow> bool" where
  "effect_wf u =
     (case jss_effect u of
        None \<Rightarrow> \<not> jss_rendered (state u)
      | Some r \<Rightarrow> jss_rendered (state u) \<and> r < length (runs u) \<and> cleanups (snd (runs u ! r)) = 0)"

section \<open>URLSubmitForm\<close>

text \<open>
  The state of the form. A character of a \<open>string\<close> stands for a code unit of the JavaScript
  string with a value below 256. \<open>trim\<close> removes white space and line terminators at both
  ends: among these code units, 9 to 13, 32 and 160.
\<close>

record HighlightsRequest =
  hr_video_url :: string
  subtitle_language :: string
  no_auto_subs :: bool

record URLSubmitForm =
  form_videoUrl :: string
  form_language :: string
  form_noAutoSubs :: bool
  form_loading :: bool
  form_error :: "string option"

definition js_space :: "char \<Rightarrow> bool" where
  "js_space c =
     (c \<in> set [CHR 0x09, CHR 0x0A, CHR 0x0B, CHR 0x0C, CHR 0x0D, CHR 0x20, CHR 0xA0])"

definition trim :: "string \<Rightarrow> string" where
  "trim s = rev (dropWhile js_space (rev (dropWhile js_space s)))"

text \<open>
  \<open>validateYouTubeURL\<close> tests the regular expression
  \<^verbatim>\<open>/^(https?:\/\/)?(www\.)?(youtube\.com\/watch\?v=|youtu\.be\/)[\w-]+/\<close>.
  \<open>after p s\<close> lists what is left of \<open>s\<close> behind the literal \<open>p\<close> at its start; the test
  succeeds when some way through the optional groups and the alternative leaves a remainder
  that starts with a word character or a hyphen.
\<close>

definition word_char :: "char \<Rightarrow> bool" where
  "word_char c =
     (c \<in> set ''abcdefghijklmnopqrstuvwxyzABCDEFGHIJKLMNOPQRSTUVWXYZ0123456789_'')"

definition after :: "string \<Rightarrow> string \<Rightarrow> string list" where
  "after p s = (if take (length p) s = p then [drop (length p) s] else [])"

definition validateYouTubeURL :: "string \<Rightarrow> bool" where
  "validateYouTubeURL u =
     (let r1 = u # after ''http://'' u @ after ''https://'' u;
          r2 = concat (map (\<lambda>r. r # after ''www.'' r) r1);
          r3 = concat (map (\<lambda>r. after ''youtube.com/watch?v='' r @ after ''youtu.be/'' r) r2)
      in list_ex (\<lambda>r. case r of [] \<Rightarrow> False | c # cs \<Rightarrow> word_char c \<or> c = CHR ''-'') r3)"

text \<open>
  \<open>handleSubmit\<close> up to the \<open>await\<close>: it returns the form and the request it sends, if any.
  \<open>handleSubmit_settled\<close> is the rest, run when the call has settled: it returns the form and
  the call of \<open>onSuccess\<close> it makes, if any, as the event of the workflow. The submit button
  is disabled while \<open>loading\<close>.
\<close>

definition handleSubmit :: "URLSubmitForm \<Rightarrow> URLSubmitForm \<times> HighlightsRequest option" where
  "handleSubmit f =
     (let f1 = f\<lparr>form_error := None\<rparr> in
      if trim (form_videoUrl f) = [] then
        (f1\<lparr>form_error := Some ''Please enter a YouTube URL''\<rparr>, None)
      else if \<not> validateYouTubeURL (form_videoUrl f) then
        (f1\<lparr>form_error := Some ''Please enter a valid YouTube URL''\<rparr>, None)
      else
        (f1\<lparr>form_loading := True\<rparr>,
         Some \<lparr>hr_video_url = form_videoUrl f, subtitle_language = form_language f,
               no_auto_subs = form_noAutoSubs f\<rparr>))"

fun extract_rejected :: "thrown \<Rightarrow> string" where
  "extract_rejected (APIError st m) = ''Failed to extract highlights: '' @ m"
| "extract_rejected (OtherError m) = ''Failed to extract highlights: '' @ m"
| "extract_rejected NonError = ''An unexpected error occurred. Please try again.''"

definition handleSubmit_settled ::
  "URLSubmitForm \<Rightarrow> thrown + HighlightsResponse \<Rightarrow> URLSubmitForm \<times> event option" where
  "handleSubmit_settled f res =
     (case res of
        Inr response \<Rightarrow>
          (f\<lparr>form_loading := False\<rparr>,
           Some (ExtractSucceeded response (form_videoUrl f) (form_language f) (form_noAutoSubs f)))
      | Inl e \<Rightarrow> (f\<lparr>form_error := Some (extract_rejected e), form_loading := False\<rparr>, None))"

definition submit_click :: "URLSubmitForm \<Rightarrow> URLSubmitForm \<times> HighlightsRequest option" where
  "submit_click f = (if form_loading f then (f, None) else handleSubmit f)"

section \<open>UploadReelsForm\<close>

text \<open>
  The string operations the form uses: \<open>split('/')\<close>, \<open>pop()\<close>, \<open>replace\<close> with a string
  pattern (the first occurrence is replaced), \<open>replace\<close> with the pattern \<open>/^out_/\<close>, and
  \<open>replace(/_/g, ' ')\<close>.
\<close>

fun split_on :: "char \<Rightarrow> string \<Rightarrow> string list" where
  "split_on d [] = [[]]"
| "split_on d (c # cs) =
     (if c = d then [] # split_on d cs
      else (case split_on d cs of [] \<Rightarrow> [[c]] | r # rs \<Rightarrow> (c # r) # rs))"

definition pop :: "'a list \<Rightarrow> 'a option" where
  "pop xs = (if xs = [] then None else Some (last xs))"

fun replace_first :: "string \<Rightarrow> string \<Rightarrow> string \<Rightarrow> string" where
  "replace_first pat rep [] = (if pat = [] then rep else [])"
| "replace_first pat rep (c # cs) =
     (if take (length pat) (c # cs) = pat then rep @ drop (length pat) (c # cs)
      else c # replace_first pat rep cs)"

definition replace_prefix :: "string \<Rightarrow> string \<Rightarrow> string \<Rightarrow> string" where
  "replace_prefix pat rep s = (if take (length pat) s = pat then rep @ drop (length pat) s else s)"

definition underscores_to_spaces :: "string \<Rightarrow> string" where
  "underscores_to_spaces s = map (\<lambda>c. if c = CHR ''_'' then CHR '' '' else c) s"

text \<open>
  The initial value of \<open>titles\<close>. \<open>new Map(entries)\<close> sets the entries in order, so the last
  entry of a key stays. The optional chain and \<open>|| ''\<close> give the empty string when there is no
  last segment or the name is empty. \<open>if (highlightTitle)\<close> takes the title when it is defined
  and not empty. The built-in \<open>toUpperCase\<close>, applied to \<open>charAt(0)\<close>, is the parameter
  \<open>toUpperCase\<close>, from a character to its upper-case string; \<open>ascii_upper\<close> is its value on
  ASCII.

  \<open>initialTitles\<close> and \<open>titles\<close> are plain objects used as dictionaries; such an object is
  modelled by the map of its own properties. Reading a key (\<open>obj_get\<close>) gives the own
  property, and for a key that is not an own property the member of \<open>Object.prototype\<close> of
  that name, if there is one. The assignment \<open>o[k] = v\<close> of a string (\<open>obj_assign\<close>) stores an
  own property, except that for the key \<open>__proto__\<close>, when it is not an own property, it calls
  the setter inherited from \<open>Object.prototype\<close>, which ignores a string. A computed key in an
  object literal, as in \<open>updateTitle\<close>, always defines an own property.
\<close>

definition proto_key :: string where
  "proto_key = ''__proto__''"

definition prototype_keys :: "string list" where
  "prototype_keys =
     [proto_key, ''constructor'', ''hasOwnProperty'', ''isPrototypeOf'',
      ''propertyIsEnumerable'', ''toLocaleString'', ''toString'', ''valueOf'',
      ''__defineGetter__'', ''__defineSetter__'', ''__lookupGetter__'', ''__lookupSetter__'']"

definition obj_get :: "(string \<rightharpoonup> string) \<Rightarrow> string \<Rightarrow> js_value" where
  "obj_get m k =
     (case m k of
        Some v \<Rightarrow> Str v
      | None \<Rightarrow> if k \<in> set prototype_keys then Inherited else Undefined)"

definition obj_assign :: "string \<Rightarrow> string \<Rightarrow> (string \<rightharpoonup> string) \<Rightarrow> (string \<rightharpoonup> string)" where
  "obj_assign k v m = (if k = proto_key \<and> m k = None then m else m(k \<mapsto> v))"

definition highlightTitles :: "HighlightSegment list \<Rightarrow> (string \<rightharpoonup> string)" where
  "highlightTitles hs = fold (\<lambda>h m. m(seg_id h \<mapsto> title h)) hs Map.empty"

definition filename_of :: "string \<Rightarrow> string" where
  "filename_of path =
     (case pop (split_on CHR ''/'' path) of
        None \<Rightarrow> []
      | Some b \<Rightarrow> (let r = replace_first ''.mp4'' [] b in if r = [] then [] else r))"

definition capitalized :: "(char \<Rightarrow> string) \<Rightarrow> string \<Rightarrow> string" where
  "capitalized toUpperCase s = (case s of [] \<Rightarrow> [] | c # cs \<Rightarrow> toUpperCase c) @ drop 1 s"

definition initial_title :: "(char \<Rightarrow> string) \<Rightarrow> HighlightSegment list \<Rightarrow> string \<Rightarrow> string" where
  "initial_title toUpperCase hs path =
     (let filename = filename_of path;
          highlightId = replace_prefix ''out_'' [] filename;
          cleanTitle = underscores_to_spaces (replace_prefix ''out_'' [] filename);
          fallback = capitalized toUpperCase cleanTitle
      in case highlightTitles hs highlightId of
           None \<Rightarrow> fallback
         | Some t \<Rightarrow> if t \<noteq> [] then t else fallback)"

definition initialTitles ::
  "(char \<Rightarrow> string) \<Rightarrow> string list \<Rightarrow> HighlightSegment list \<Rightarrow> (string \<rightharpoonup> string)" where
  "initialTitles toUpperCase fvs hs =
     fold (\<lambda>path m. obj_assign path (initial_title toUpperCase hs path) m) fvs Map.empty"

definition ascii_upper :: "char \<Rightarrow> string" where
  "ascii_upper c =
     (case map_of (zip ''abcdefghijklmnopqrstuvwxyz'' ''ABCDEFGHIJKLMNOPQRSTUVWXYZ'') c of
        None \<Rightarrow> [c]
      | Some C \<Rightarrow> [C])"

text \<open>
  The state of the form; \<open>selectedVideos\<close> is a \<open>Set\<close> and \<open>titles\<close> holds the own properties
  of the object. The title of an entry is \<open>titles[videoPath] || "Generated Short"\<close>: the value
  read when it is truthy, else the fallback. \<open>upload_click\<close> is a click on the
  upload button: the button is rendered when \<open>finishedVideos\<close> is not empty (otherwise the
  component returns the "No Videos Available" card) and \<open>selectedVideos.size > 0\<close>, and it is
  disabled while \<open>loading\<close>. \<open>handleUpload\<close> up to the \<open>await\<close> returns the form and the
  \<open>reels_to_upload\<close> of the request; \<open>handleUpload_settled\<close> is the rest.
\<close>

record UploadReelsForm =
  selectedVideos :: "string list"
  titles :: "string \<rightharpoonup> string"
  up_loading :: bool
  up_error :: "string option"

definition upload_form_init ::
  "(char \<Rightarrow> string) \<Rightarrow> string list \<Rightarrow> HighlightSegment list \<Rightarrow> UploadReelsForm" where
  "upload_form_init toUpperCase fvs hs =
     \<lparr>selectedVideos = uniq fvs, titles = initialTitles toUpperCase fvs hs, up_loading = False,
      up_error = None\<rparr>"

definition toggleVideo :: "string \<Rightarrow> UploadReelsForm \<Rightarrow> UploadReelsForm" where
  "toggleVideo p f = f\<lparr>selectedVideos := toggle p (selectedVideos f)\<rparr>"

definition updateTitle :: "string \<Rightarrow> string \<Rightarrow> UploadReelsForm \<Rightarrow> UploadReelsForm" where
  "updateTitle p t f = f\<lparr>titles := (titles f)(p \<mapsto> t)\<rparr>"

definition reelsToUpload :: "UploadReelsForm \<Rightarrow> ReelUploadRequest list" where
  "reelsToUpload f =
     map (\<lambda>videoPath.
            \<lparr>file_path = videoPath,
             reel_title = (case obj_get (titles f) videoPath of
                             Str t \<Rightarrow> if t \<noteq> [] then Str t else Str ''Generated Short''
                           | Inherited \<Rightarrow> Inherited
                           | Undefined \<Rightarrow> Str ''Generated Short'')\<rparr>)
         (selectedVideos f)"

definition handleUpload :: "UploadReelsForm \<Rightarrow> UploadReelsForm \<times> ReelUploadRequest list" where
  "handleUpload f = (f\<lparr>up_error := None, up_loading := True\<rparr>, reelsToUpload f)"

fun upload_rejected :: "thrown \<Rightarrow> string" where
  "upload_rejected (APIError st m) = ''Failed to upload videos: '' @ m"
| "upload_rejected (OtherError m) = ''Failed to upload videos: '' @ m"
| "upload_rejected NonError = ''An unexpected error occurred while uploading videos.''"

definition handleUpload_settled ::
  "UploadReelsForm \<Rightarrow> thrown + string list \<Rightarrow> UploadReelsForm \<times> event option" where
  "handleUpload_settled f res =
     (case res of
        Inr reel_links \<Rightarrow> (f\<lparr>up_loading := False\<rparr>, Some (UploadSucceeded reel_links))
      | Inl e \<Rightarrow> (f\<lparr>up_error := Some (upload_rejected e), up_loading := False\<rparr>, None))"

definition upload_click ::
  "string list \<Rightarrow> UploadReelsForm \<Rightarrow> UploadReelsForm \<times> ReelUploadRequest list option" where
  "upload_click fvs f =
     (if fvs \<noteq> [] \<and> selectedVideos f \<noteq> [] \<and> \<not> up_loading f
      then (fst (handleUpload f), Some (snd (handleUpload f)))
      else (f, None))"

text \<open>
  The filename convention in declarative terms, for comparison with the code. \<open>basename\<close> is
  what follows the last slash. \<open>remove_first pat s\<close> cuts \<open>pat\<close> out of \<open>s\<close> at the first
  position where it occurs; \<open>strip_suffix\<close> and \<open>strip_prefix\<close> remove a pattern at the end and
  at the start. \<open>suffix_only\<close> says that \<open>.mp4\<close> occurs in a name at its end or not at all.
  \<open>title_of_name\<close> gives the title for a name without its extension: the identifier is the
  name without a leading \<open>out_\<close>; the title is that of the last selected highlight with this
  identifier when there is one and its title is not empty, and otherwise the identifier with
  underscores turned into spaces and its first character in upper case.
  \<open>convention_title\<close> applies it to the basename with the suffix \<open>.mp4\<close> stripped.
  \<open>claimed_title\<close> follows the words of claim C9: the title of a highlight with the identifier
  is taken whatever it is.
\<close>

definition basename :: "string \<Rightarrow> string" where
  "basename p = rev (takeWhile (\<lambda>c. c \<noteq> CHR ''/'') (rev p))"

definition remove_first :: "string \<Rightarrow> string \<Rightarrow> string" where
  "remove_first pat s =
     (case find (\<lambda>k. take (length pat) (drop k s) = pat) [0..<Suc (length s)] of
        None \<Rightarrow> s
      | Some k \<Rightarrow> take k s @ drop (k + length pat) s)"

definition strip_prefix :: "string \<Rightarrow> string \<Rightarrow> string" where
  "strip_prefix p s = (if take (length p) s = p then drop (length p) s else s)"

definition strip_suffix :: "string \<Rightarrow> string \<Rightarrow> string" where
  "strip_suffix p s =
     (if length p \<le> length s \<and> drop (length s - length p) s = p
      then take (length s - length p) s else s)"

definition suffix_only :: "string \<Rightarrow> bool" where
  "suffix_only b = list_all (\<lambda>k. take 4 (drop k b) \<noteq> ''.mp4'') [0..<length b - 4]"

definition title_of_name :: "(char \<Rightarrow> string) \<Rightarrow> HighlightSegment list \<Rightarrow> string \<Rightarrow> string" where
  "title_of_name toUpperCase hs name =
     (let ident = strip_prefix ''out_'' name;
          fallback = capitalized toUpperCase (underscores_to_spaces ident)
      in case filter (\<lambda>h. seg_id h = ident) hs of
           [] \<Rightarrow> fallback
         | m # ms \<Rightarrow> if title (last (m # ms)) = [] then fallback else title (last (m # ms)))"

definition convention_title :: "(char \<Rightarrow> string) \<Rightarrow> HighlightSegment list \<Rightarrow> string \<Rightarrow> string" where
  "convention_title toUpperCase hs path =
     title_of_name toUpperCase hs (strip_suffix ''.mp4'' (basename path))"

definition claimed_title :: "(char \<Rightarrow> string) \<Rightarrow> HighlightSegment list \<Rightarrow> string \<Rightarrow> string" where
  "claimed_title toUpperCase hs path =
     (let ident = strip_prefix ''out_'' (strip_suffix ''.mp4'' (basename path))
      in case find (\<lambda>h. seg_id h = ident) hs of
           Some h \<Rightarrow> title h
         | None \<Rightarrow> capitalized toUpperCase (underscores_to_spaces ident))"

text \<open>A form holding a valid address, for the scenarios.\<close>

definition example_form :: URLSubmitForm where
  "example_form = \<lparr>form_videoUrl = ''https://youtu.be/v1'', form_language = ''en'',
     form_noAutoSubs = False, form_loading = False, form_error = None\<rparr>"

text \<open>
  For the updates of a job that has been left. \<open>inst_bound\<close>: every run of the effect was
  started by a component instance numbered at most as the current one. \<open>left_behind n w\<close>:
  the instances up to number \<open>n\<close> are not mounted in \<open>w\<close>. \<open>example_reconnected\<close> is the scenario
  in which the stream of job \<open>j1\<close> has failed once and has been reconnected by the retry timer.
\<close>

definition inst_bound :: "ui \<Rightarrow> bool" where
  "inst_bound u = list_all (\<lambda>r. fst r \<le> jss_instance u) (runs u)"

definition left_behind :: "nat \<Rightarrow> ui \<Rightarrow> bool" where
  "left_behind n w = (n \<le> jss_instance w \<and> (\<not> jss_rendered (state w) \<or> n < jss_instance w))"

definition example_reconnected :: "event list" where
  "example_reconnected =
     [example_extraction, ToggleHighlight ''h1'', SelectorGenerate, example_generated,
      StreamEvent 0 (OnError 0), StreamEvent 0 (OnTimeout 0), StreamEvent 0 (OnOpen 1)]"

section \<open>Properties of the status stream\<close>

lemmas stream_defs = onerror_def onopen_def onmessage_def es_close_def setTimeout_def clearTimeout_def
  connectToStream_def live_def pending_def maxRetries_def createJobStream_def

lemma filter_update_out:
  "i < length xs \<Longrightarrow> P (xs ! i) \<Longrightarrow> \<not> P x \<Longrightarrow>
     Suc (length (filter P (xs[i := x]))) = length (filter P xs)"
proof (induction xs arbitrary: i)
  case Nil
  then show ?case by simp
next
  case (Cons a xs)
  then show ?case by (cases i) auto
qed

lemma filter_none: "length (filter P xs) = 0 \<Longrightarrow> i < length xs \<Longrightarrow> \<not> P (xs ! i)"
  by (auto simp: filter_empty_conv)

lemma live_n_live: "live s c \<Longrightarrow> 0 < n_live s"
  using filter_none [of "\<lambda>e. \<not> closed e" "sources s" c] by (auto simp: live_def n_live_def)

lemma pending_n_pending: "pending s t \<Longrightarrow> 0 < n_pending s"
  using filter_none [of "\<lambda>t. snd t = Pending" "timers s" t] by (auto simp: pending_def n_pending_def)

lemma quiet_step: "quiet s \<Longrightarrow> stream_step s e = (s, [])"
  by (cases e) (auto simp: quiet_def dest: live_n_live pending_n_pending)

lemma stream_run_fst: "fst (stream_run s (e # es)) = fst (stream_run (fst (stream_step s e)) es)"
  by (simp add: split_def Let_def)

lemma stream_run_snd:
  "snd (stream_run s (e # es)) = snd (stream_step s e) @ snd (stream_run (fst (stream_step s e)) es)"
  by (simp add: split_def Let_def)

declare stream_run.simps(2) [simp del]
declare stream_run_fst [simp] stream_run_snd [simp]

lemma quiet_run: "quiet s \<Longrightarrow> stream_run s es = (s, [])"
  by (induction es) (auto simp: quiet_step prod_eq_iff)

lemma n_live_close: "live s c \<Longrightarrow> Suc (n_live (es_close c s)) = n_live s"
  using filter_update_out [of c "sources s" "\<lambda>e. \<not> closed e" "(sources s ! c)\<lparr>closed := True\<rparr>"]
  by (simp add: live_def n_live_def es_close_def)

lemma n_pending_close: "n_pending (es_close c s) = n_pending s"
  by (simp add: n_pending_def es_close_def)

lemma retry_close: "retryCount (es_close c s) = retryCount s"
  by (simp add: es_close_def)

lemma n_pending_fire: "pending s t \<Longrightarrow>
   Suc (n_pending (s\<lparr>timers := (timers s)[t := (fst (timers s ! t), Fired)]\<rparr>)) = n_pending s"
  using filter_update_out [of t "timers s" "\<lambda>t. snd t = Pending" "(fst (timers s ! t), Fired)"]
  by (simp add: pending_def n_pending_def)

lemma step_balance:
  "n_live (fst (stream_step s e)) + n_pending (fst (stream_step s e)) \<le> n_live s + n_pending s"
proof (cases e)
  case (OnOpen c)
  then show ?thesis by (simp add: onopen_def n_live_def n_pending_def)
next
  case (OnMessage c d)
  then show ?thesis by (simp add: onmessage_def split: option.splits)
next
  case (OnError c)
  show ?thesis
  proof (cases "live s c")
    case True
    from n_live_close [OF True] n_pending_close [of c s] retry_close [of c s]
    show ?thesis using OnError True
      by (simp add: onerror_def Let_def split_def setTimeout_def n_live_def n_pending_def)
  next
    case False
    then show ?thesis using OnError by simp
  qed
next
  case (OnTimeout t)
  show ?thesis
  proof (cases "pending s t")
    case True
    from n_pending_fire [OF True]
    show ?thesis using OnTimeout True
      by (simp add: connectToStream_def n_live_def n_pending_def createJobStream_def)
  next
    case False
    then show ?thesis using OnTimeout by simp
  qed
qed

lemma step_terminal:
  assumes "n_live s + n_pending s \<le> 1" and "terminal_error \<in> set (snd (stream_step s e))"
  shows "snd (stream_step s e) = [terminal_error] \<and> quiet (fst (stream_step s e))"
proof (cases e)
  case (OnOpen c)
  then show ?thesis using assms by (auto simp: onopen_def terminal_error_def split: if_splits)
next
  case (OnMessage c d)
  then show ?thesis using assms
    by (auto simp: onmessage_def terminal_error_def split: if_splits option.splits)
next
  case (OnError c)
  show ?thesis
  proof (cases "live s c")
    case True
    from n_live_close [OF True] n_pending_close [of c s] retry_close [of c s]
    show ?thesis using OnError True assms
      by (auto simp: onerror_def Let_def split_def setTimeout_def terminal_error_def quiet_def
          split: if_splits)
  next
    case False
    then show ?thesis using OnError assms by simp
  qed
next
  case (OnTimeout t)
  then show ?thesis using assms by (auto split: if_splits)
qed

lemma run_terminal_once:
  "n_live s + n_pending s \<le> 1 \<Longrightarrow> count_list (snd (stream_run s es)) terminal_error \<le> 1"
proof (induction es arbitrary: s)
  case Nil
  then show ?case by simp
next
  case (Cons e es)
  let ?s1 = "fst (stream_step s e)"
  have bal: "n_live ?s1 + n_pending ?s1 \<le> 1"
    using step_balance [of s e] Cons.prems by simp
  show ?case
  proof (cases "terminal_error \<in> set (snd (stream_step s e))")
    case True
    from step_terminal [OF Cons.prems True]
    have "snd (stream_step s e) = [terminal_error]" and "quiet ?s1" by simp_all
    then show ?thesis by (simp add: stream_run_snd quiet_run)
  next
    case False
    then have "count_list (snd (stream_step s e)) terminal_error = 0"
      by (simp add: count_list_0_iff)
    then show ?thesis using Cons.IH [OF bal] by (simp add: stream_run_snd)
  qed
qed

lemma useEffect_balance: "useEffect j = Some s \<Longrightarrow> n_live s + n_pending s \<le> 1"
  by (auto simp: useEffect_def connectToStream_def effect_init_def n_live_def n_pending_def
      createJobStream_def split: if_splits)

lemma run_balance: "n_live (fst (stream_run s es)) + n_pending (fst (stream_run s es)) \<le> n_live s + n_pending s"
proof (induction es arbitrary: s)
  case Nil
  then show ?case by simp
next
  case (Cons e es)
  from Cons.IH [of "fst (stream_step s e)"] step_balance [of s e]
  show ?case by (simp add: stream_run_fst)
qed

lemma failures4_run:
  assumes "live s c" and "retryCount s = 0"
  shows "snd (stream_run s (failures4 s c))
           = [retry_error 1, retry_error 2, retry_error 3, terminal_error]
    \<and> length (sources (fst (stream_run s (failures4 s c)))) = length (sources s) + 3
    \<and> timers (fst (stream_run s (failures4 s c)))
           = timers s @ [(2000, Fired), (4000, Fired), (6000, Fired)]"
  using assms
  by (simp add: failures4_def stream_defs Let_def split_def nth_append list_update_append
      retry_error_def terminal_error_def numeral_2_eq_2 numeral_3_eq_3)

text \<open>
  Claim C7. When a connection fails while the retry count is below the maximum of three, the
  reconnection is scheduled with a delay of 2000 ms times the new retry count: the count goes
  from \<open>n - 1\<close> to \<open>n\<close> and the timer is set to \<open>2000 * n\<close>. Over consecutive failures that
  start from a count of zero the three reconnections are scheduled after 2000, 4000 and
  6000 ms: one, two and three units, linear in the attempt number.
\<close>

theorem reconnect_delay_linear:
  assumes "live s c" and "retryCount s < maxRetries"
  shows "timers (fst (stream_step s (OnError c)))
           = timers s @ [(2000 * (retryCount s + 1), Pending)]
    \<and> retryCount (fst (stream_step s (OnError c))) = retryCount s + 1
    \<and> retryTimeout (fst (stream_step s (OnError c))) = Some (length (timers s))
    \<and> (retryCount s = 0 \<longrightarrow>
         timers (fst (stream_run s (failures4 s c)))
           = timers s @ [(2000, Fired), (4000, Fired), (6000, Fired)])"
  using assms failures4_run [of s c] by (simp add: stream_defs Let_def split_def)

theorem reconnect_delay_linear_witness:
  "live (fst (connectToStream (effect_init ''j1''))) 0
   \<and> retryCount (fst (connectToStream (effect_init ''j1''))) < maxRetries
   \<and> timers (fst (stream_step (fst (connectToStream (effect_init ''j1''))) (OnError 0)))
        = [(2000, Pending)]
   \<and> timers (fst (stream_run (fst (connectToStream (effect_init ''j1'')))
          (failures4 (fst (connectToStream (effect_init ''j1''))) 0)))
        = [(2000, Fired), (4000, Fired), (6000, Fired)]"
  using reconnect_delay_linear [of "fst (connectToStream (effect_init ''j1''))" 0]
  by (simp add: stream_defs effect_init_def)

lemma stream_run_append:
  "stream_run s (xs @ ys) =
     (fst (stream_run (fst (stream_run s xs)) ys),
      snd (stream_run s xs) @ snd (stream_run (fst (stream_run s xs)) ys))"
  by (induction xs arbitrary: s) (simp_all add: prod_eq_iff)

lemma failures4_quiet:
  assumes "live s c" and "retryCount s = 0" and bal: "n_live s + n_pending s \<le> 1"
  shows "quiet (fst (stream_run s (failures4 s c)))"
proof -
  let ?n = "length (sources s)" and ?t = "length (timers s)"
  let ?six = "[OnError c, OnTimeout ?t, OnError ?n, OnTimeout (?t + 1), OnError (?n + 1),
          OnTimeout (?t + 2)]"
  let ?s6 = "fst (stream_run s ?six)"
  have split: "failures4 s c = ?six @ [OnError (?n + 2)]"
    by (simp add: failures4_def Let_def)
  have last: "snd (stream_step ?s6 (OnError (?n + 2))) = [terminal_error]"
    using assms(1,2)
    by (simp add: stream_defs Let_def split_def nth_append list_update_append terminal_error_def)
  have "n_live ?s6 + n_pending ?s6 \<le> 1"
    using run_balance [of s ?six] bal by simp
  then have "quiet (fst (stream_step ?s6 (OnError (?n + 2))))"
    using step_terminal [of ?s6 "OnError (?n + 2)"] last by simp
  then show ?thesis
    unfolding split stream_run_append by simp
qed

text \<open>
  Claim C3. For every sequence of stream events after the effect has started: the terminal
  message "Connection to status stream failed after multiple attempts" is passed to
  \<open>setError\<close> at most once; an open acknowledgment of a connection that is not closed sets
  the retry counter to zero; and when, from a counter of zero, a connection fails and the three
  reconnections that follow fail too, the notifications are the three retry messages and then
  the terminal message exactly once, exactly three further connections have been made, and
  afterwards nothing is open or scheduled, so that no event whatever causes a further
  connection or notification: only a new run of the effect (the user's restart, which starts
  with a counter of zero) connects again.
\<close>

theorem stream_retry_bound:
  assumes "useEffect j = Some s0" and "fst (stream_run s0 evs) = s"
  shows "count_list (snd (stream_run s0 evs)) terminal_error \<le> 1
     \<and> (live s c \<longrightarrow> retryCount (fst (stream_step s (OnOpen c))) = 0)
     \<and> (live s c \<and> retryCount s = 0 \<longrightarrow>
          snd (stream_run s (failures4 s c))
             = [retry_error 1, retry_error 2, retry_error 3, terminal_error]
        \<and> length (sources (fst (stream_run s (failures4 s c)))) = length (sources s) + 3
        \<and> quiet (fst (stream_run s (failures4 s c)))
        \<and> (\<forall>es. stream_run (fst (stream_run s (failures4 s c))) es
                 = (fst (stream_run s (failures4 s c)), [])))"
proof -
  have b0: "n_live s0 + n_pending s0 \<le> 1"
    using assms(1) by (rule useEffect_balance)
  have bs: "n_live s + n_pending s \<le> 1"
    using run_balance [of s0 evs] b0 assms(2) by simp
  have one: "count_list (snd (stream_run s0 evs)) terminal_error \<le> 1"
    using b0 by (rule run_terminal_once)
  have reset: "live s c \<longrightarrow> retryCount (fst (stream_step s (OnOpen c))) = 0"
    by (simp add: onopen_def)
  have four: "live s c \<and> retryCount s = 0 \<longrightarrow>
          snd (stream_run s (failures4 s c))
             = [retry_error 1, retry_error 2, retry_error 3, terminal_error]
        \<and> length (sources (fst (stream_run s (failures4 s c)))) = length (sources s) + 3
        \<and> quiet (fst (stream_run s (failures4 s c)))
        \<and> (\<forall>es. stream_run (fst (stream_run s (failures4 s c))) es
                 = (fst (stream_run s (failures4 s c)), []))"
    using failures4_run [of s c] failures4_quiet [of s c] bs quiet_run by blast
  from one reset four show ?thesis by blast
qed

theorem stream_retry_bound_witness:
  "useEffect ''j1'' = Some (fst (connectToStream (effect_init ''j1'')))
   \<and> live (fst (stream_run (fst (connectToStream (effect_init ''j1''))) [OnOpen 0])) 0
   \<and> retryCount (fst (stream_run (fst (connectToStream (effect_init ''j1''))) [OnOpen 0])) = 0
   \<and> snd (stream_run (fst (stream_run (fst (connectToStream (effect_init ''j1''))) [OnOpen 0]))
         [OnError 0, OnTimeout 0, OnError 1, OnTimeout 1, OnError 2, OnTimeout 2, OnError 3])
        = [retry_error 1, retry_error 2, retry_error 3, terminal_error]
   \<and> stream_run (fst (stream_run (fst (stream_run (fst (connectToStream (effect_init ''j1''))) [OnOpen 0]))
         [OnError 0, OnTimeout 0, OnError 1, OnTimeout 1, OnError 2, OnTimeout 2, OnError 3]))
         [OnTimeout 2, OnError 3, OnOpen 3]
       = (fst (stream_run (fst (stream_run (fst (connectToStream (effect_init ''j1''))) [OnOpen 0]))
         [OnError 0, OnTimeout 0, OnError 1, OnTimeout 1, OnError 2, OnTimeout 2, OnError 3]), [])"
proof -
  let ?a = "fst (connectToStream (effect_init ''j1''))"
  let ?b = "fst (stream_run ?a [OnOpen 0])"
  have h1: "useEffect ''j1'' = Some ?a"
    by (simp add: useEffect_def connectToStream_def effect_init_def)
  have h2: "live ?b 0 \<and> retryCount ?b = 0"
    by (simp add: stream_defs effect_init_def)
  have f: "failures4 ?b 0 = [OnError 0, OnTimeout 0, OnError 1, OnTimeout 1, OnError 2, OnTimeout 2, OnError 3]"
    by (simp add: failures4_def stream_defs effect_init_def)
  from stream_retry_bound [OF h1, of "[OnOpen 0]" ?b 0] h1 h2 show ?thesis
    unfolding f by blast
qed

text \<open>
  The release stops the stream when no reconnection has been made before it: the cleanup
  closes the first connection and clears the retry timer, pending or not, and afterwards no
  event produces anything.
\<close>

lemma useEffect_pristine: "useEffect j = Some s \<Longrightarrow> pristine s"
  by (auto simp: useEffect_def connectToStream_def effect_init_def pristine_def split: if_splits)

lemma step_pristine: "pristine s \<Longrightarrow> no_timeout e \<Longrightarrow> pristine (fst (stream_step s e))"
  by (cases e) (auto simp: pristine_def stream_defs Let_def split_def split: option.splits)

lemma run_pristine:
  "pristine s \<Longrightarrow> list_all no_timeout es \<Longrightarrow> pristine (fst (stream_run s es))"
  by (induction es arbitrary: s) (simp_all add: step_pristine)

lemma cleanup_pristine: "pristine s \<Longrightarrow> quiet (cleanup s)"
  by (cases "sources s"; cases "timers s")
     (auto simp: pristine_def quiet_def n_live_def n_pending_def cleanup_def es_close_def
        clearTimeout_def Let_def)

lemma cleanup_before_reconnect:
  assumes "useEffect j = Some s0" and "list_all no_timeout es"
  shows "stream_run (cleanup (fst (stream_run s0 es))) es'
           = (cleanup (fst (stream_run s0 es)), [])"
  using cleanup_pristine run_pristine useEffect_pristine assms quiet_run by blast

text \<open>
  After a reconnection the release does not stop the stream. The effect starts for job \<open>j1\<close>;
  the first connection fails, the retry timer fires and makes a second connection, which is
  acknowledged; then the cleanup runs. It clears the timer (which has fired already) and
  closes the object in \<open>eventSource\<close>, the first connection, closed already. The second
  connection is still open: a message arriving on it makes \<open>onmessage\<close> call the setters, and
  an error on it schedules a further reconnection. Whether the setters take effect is a matter
  of the page (see \<open>stream_event\<close>).
\<close>

lemma cleanup_leaves_reconnected_source_open:
  "released_after ''j1'' [OnError 0, OnTimeout 0, OnOpen 1] = Some example_leaked
   \<and> live example_leaked 1
   \<and> stream_step example_leaked (OnMessage 1 (Some example_update))
        = (example_leaked, [SetStatus example_update, SetError None])
   \<and> snd (stream_step example_leaked (OnError 1)) = [retry_error 1]"
  by (simp add: released_after_def useEffect_def effect_init_def cleanup_def stream_defs Let_def
      split_def example_leaked_def API_BASE_URL_def retry_error_def)

section \<open>Properties of the workflow\<close>

lemmas handler_defs = handleHighlightsSuccess_def handleBackToUrl_def handleBackToHighlights_def
  handleRestart_def handleJobComplete_def handleBackToJobStatus_def handleUploadSuccess_def
  handleBackToUpload_def handleCampaignComplete_def handleStartNewCampaign_def generate_resolved_def

lemmas ui_defs = transition_def commit_def run_effect_def run_cleanup_def jss_rendered_def job_of_def
  handleGenerateVideos_def generate_settled_def stream_event_def handleGenerate_def toggle_def
  continue_offered_def restart_offered_def isCompleted_def truthy_def

lemmas example_defs = example_h1_def example_h2_def example_extraction_def example_extraction2_def
  example_generated_def example_finished_def example_update_def example_to_finished_def

lemma run_effect_fields [simp]:
  "state (run_effect j u) = state u" "in_flight (run_effect j u) = in_flight u"
  "sc_error (run_effect j u) = sc_error u" "selectedIds (run_effect j u) = selectedIds u"
  by (simp_all add: run_effect_def split: option.splits)

lemma run_cleanup_fields [simp]:
  "state (run_cleanup u) = state u" "in_flight (run_cleanup u) = in_flight u"
  "sc_error (run_cleanup u) = sc_error u" "selectedIds (run_cleanup u) = selectedIds u"
  by (simp_all add: run_cleanup_def split: option.splits)

lemma commit_fields [simp]:
  "state (commit old u) = state u" "in_flight (commit old u) = in_flight u"
  "sc_error (commit old u) = sc_error u"
  by (simp_all add: commit_def Let_def)

lemma transition_fields [simp]:
  "state (transition f u) = f (state u)" "in_flight (transition f u) = in_flight u"
  "sc_error (transition f u) = None"
  by (simp_all add: transition_def)

lemma apply_setters_fields [simp]:
  "state (foldl apply_setter u out) = state u"
  "in_flight (foldl apply_setter u out) = in_flight u"
  "sc_error (foldl apply_setter u out) = sc_error u"
  "runs (foldl apply_setter u out) = runs u"
  "jss_effect (foldl apply_setter u out) = jss_effect u"
  "selectedIds (foldl apply_setter u out) = selectedIds u"
proof (induction out arbitrary: u)
  case Nil
  { case 1 show ?case by simp next case 2 show ?case by simp next case 3 show ?case by simp
    next case 4 show ?case by simp next case 5 show ?case by simp next case 6 show ?case by simp }
next
  case (Cons a out)
  { case 1 show ?case using Cons.IH(1) [of "apply_setter u a"] by (cases a) simp_all
    next case 2 show ?case using Cons.IH(2) [of "apply_setter u a"] by (cases a) simp_all
    next case 3 show ?case using Cons.IH(3) [of "apply_setter u a"] by (cases a) simp_all
    next case 4 show ?case using Cons.IH(4) [of "apply_setter u a"] by (cases a) simp_all
    next case 5 show ?case using Cons.IH(5) [of "apply_setter u a"] by (cases a) simp_all
    next case 6 show ?case using Cons.IH(6) [of "apply_setter u a"] by (cases a) simp_all }
qed

lemma stream_event_fields [simp]:
  "state (stream_event r ev u) = state u" "in_flight (stream_event r ev u) = in_flight u"
  "sc_error (stream_event r ev u) = sc_error u" "jss_effect (stream_event r ev u) = jss_effect u"
  by (simp_all add: stream_event_def Let_def split_def)

lemma ids_filter: "ids (filter P hs) \<subseteq> ids hs"
  by (auto simp: ids_def)

lemma list_all_remove_nth: "list_all P xs \<Longrightarrow> list_all P (take i xs @ drop (Suc i) xs)"
  by (auto simp: list_all_iff dest: in_set_takeD in_set_dropD)

lemma step_sel_inv:
  assumes "sel_inv u" and "keeps_selection u e"
  shows "sel_inv (step u e)"
proof (cases e)
  case (ExtractSucceeded d v l n)
  then show ?thesis using assms
    by (simp add: sel_inv_def chosen_subset_def handleHighlightsSuccess_def)
next
  case (GenerateSettled i res)
  show ?thesis
  proof (cases "i < length (in_flight u)")
    case True
    have rest: "list_all (\<lambda>r. ids (req_highlights r) \<subseteq> ids (highlights (state u)))
                 (take i (in_flight u) @ drop (Suc i) (in_flight u))"
      using assms(1) list_all_remove_nth [of _ "in_flight u" i] by (simp add: sel_inv_def del: list_all_append)
    have this_one: "ids (req_highlights (in_flight u ! i)) \<subseteq> ids (highlights (state u))"
      using assms(1) True by (simp add: sel_inv_def list_all_length)
    show ?thesis
    proof (cases res)
      case (Inl err)
      then show ?thesis using GenerateSettled True rest assms(1)
        by (simp add: generate_settled_def Let_def sel_inv_def)
    next
      case (Inr response)
      then show ?thesis using GenerateSettled True rest this_one
        by (simp add: generate_settled_def Let_def sel_inv_def chosen_subset_def
            generate_resolved_def)
    qed
  next
    case False
    then show ?thesis using GenerateSettled assms(1) by (simp add: generate_settled_def)
  qed
next
  case SelectorGenerate
  then show ?thesis using assms(1)
    by (simp add: sel_inv_def handleGenerateVideos_def handleGenerate_def ids_filter)
next
  case StartNew
  then show ?thesis using assms
    by (auto simp: sel_inv_def chosen_subset_def handleStartNewCampaign_def initialState_def
        ids_def list_all_iff)
qed (use assms(1) in \<open>simp_all add: sel_inv_def chosen_subset_def handler_defs\<close>)

lemma run_Cons [simp]: "run u (e # es) = run (step u e) es"
  by (simp add: run_def)

lemma run_Nil [simp]: "run u [] = u"
  by (simp add: run_def)

lemma run_append: "run u (xs @ ys) = run (run u xs) ys"
  by (simp add: run_def)

lemma run_sel_inv: "sel_inv u \<Longrightarrow> guarded u evs \<Longrightarrow> sel_inv (run u evs)"
  by (induction evs arbitrary: u) (simp_all add: step_sel_inv)

lemma initial_sel_inv: "sel_inv initial_ui"
  by (simp add: sel_inv_def initial_ui_def initialState_def chosen_subset_def)

text \<open>
  Claim C2, as amended. In every state reached from the initial state by events that keep the
  selection (each completed extraction returns highlights that contain the identifiers of
  the segments chosen so far and of the selections of generation calls in flight, and no
  generation call with a non-empty selection is in flight when a new campaign is started),
  the chosen segments are a subset by identifier of the candidate segments. Generation stores
  a selection filtered from the current highlights; the other transitions leave both lists
  as they are.
\<close>

theorem chosen_subset_guarded:
  assumes "guarded initial_ui evs"
  shows "chosen_subset (state (run initial_ui evs))"
  using run_sel_inv [OF initial_sel_inv assms] by (simp add: sel_inv_def)

lemma effect_wf_for: "effect_wf u = wf_for (state u) u"
  by (simp add: effect_wf_def wf_for_def)

lemma stream_step_cleanups: "cleanups (fst (stream_step c ev)) = cleanups c"
  by (cases ev) (simp_all add: stream_defs Let_def split_def split: option.splits)

lemma useEffect_cleanups: "useEffect j = Some c \<Longrightarrow> cleanups c = 0"
  by (auto simp: useEffect_def connectToStream_def effect_init_def split: if_splits)

lemma useEffect_Some: "j \<noteq> [] \<Longrightarrow> \<exists>c. useEffect j = Some c"
  by (simp add: useEffect_def connectToStream_def)

lemma commit_wf:
  assumes "wf_for old u"
  shows "effect_wf (commit old u)"
proof (cases "jss_effect u")
  case None
  with assms have nr: "\<not> jss_rendered old" by (simp add: wf_for_def)
  show ?thesis
  proof (cases "jss_rendered (state u)")
    case True
    then obtain c where c: "useEffect (job_of (state u)) = Some c"
      using useEffect_Some [of "job_of (state u)"] by (auto simp: jss_rendered_def)
    show ?thesis using nr True c useEffect_cleanups [OF c]
      by (simp add: commit_def Let_def effect_wf_def run_effect_def)
  next
    case False
    then show ?thesis using nr None
      by (simp add: commit_def Let_def effect_wf_def)
  qed
next
  case (Some r)
  with assms have old: "jss_rendered old" "r < length (runs u)" "cleanups (snd (runs u ! r)) = 0"
    by (simp_all add: wf_for_def)
  show ?thesis
  proof (cases "jss_rendered (state u)")
    case True
    then obtain c where c: "useEffect (job_of (state u)) = Some c"
      using useEffect_Some [of "job_of (state u)"] by (auto simp: jss_rendered_def)
    show ?thesis using old True Some c useEffect_cleanups [OF c]
      by (simp add: commit_def Let_def effect_wf_def run_effect_def run_cleanup_def)
  next
    case False
    then show ?thesis using old Some
      by (simp add: commit_def Let_def effect_wf_def run_cleanup_def)
  qed
qed

lemma transition_wf: "effect_wf u \<Longrightarrow> effect_wf (transition f u)"
  unfolding transition_def by (rule commit_wf) (simp add: effect_wf_def wf_for_def split: option.splits)

lemma stream_event_runs:
  "length (runs (stream_event r ev u)) = length (runs u)
   \<and> cleanups (snd (runs (stream_event r ev u) ! i)) = cleanups (snd (runs u ! i))"
proof (cases "r < length (runs u)")
  case True
  then show ?thesis
    using stream_step_cleanups [of "snd (runs u ! r)" ev]
    by (cases "i = r") (simp_all add: stream_event_def Let_def split_def)
next
  case False
  then show ?thesis by (simp add: stream_event_def)
qed

lemma stream_event_wf: "effect_wf u \<Longrightarrow> effect_wf (stream_event r ev u)"
  using stream_event_runs [of r ev u]
  by (auto simp: effect_wf_def split: option.splits)

lemma generate_settled_wf: "effect_wf u \<Longrightarrow> effect_wf (generate_settled i res u)"
proof (cases "i < length (in_flight u)")
  case True
  assume wf: "effect_wf u"
  show ?thesis
  proof (cases res)
    case (Inl e)
    then show ?thesis using wf True
      by (simp add: generate_settled_def Let_def effect_wf_def split: option.splits)
  next
    case (Inr response)
    have "effect_wf (commit (state u)
       (u\<lparr>in_flight := take i (in_flight u) @ drop (Suc i) (in_flight u),
          state := generate_resolved (req_highlights (in_flight u ! i)) response (state u)\<rparr>))"
      by (rule commit_wf) (use wf in \<open>simp add: effect_wf_def wf_for_def split: option.splits\<close>)
    then show ?thesis using Inr True by (simp add: generate_settled_def Let_def)
  qed
next
  case False
  assume "effect_wf u"
  then show ?thesis using False by (simp add: generate_settled_def)
qed

lemma step_wf: "effect_wf u \<Longrightarrow> effect_wf (step u e)"
proof (cases e)
  case (GenerateSettled i res)
  assume "effect_wf u"
  then show ?thesis using GenerateSettled by (simp add: generate_settled_wf)
next
  case (StreamEvent r ev)
  assume "effect_wf u"
  then show ?thesis using StreamEvent by (simp add: stream_event_wf)
qed (auto simp: transition_wf, auto simp: effect_wf_def handleGenerateVideos_def split: option.splits)

lemma run_wf: "effect_wf u \<Longrightarrow> effect_wf (run u evs)"
  by (induction evs arbitrary: u) (simp_all add: step_wf)

lemma initial_wf: "effect_wf initial_ui"
  by (simp add: effect_wf_def initial_ui_def initialState_def jss_rendered_def)

lemma commit_keeps:
  assumes "wf_for old u" and "r < length (runs u)" and "jss_effect u \<noteq> Some r"
  shows "r < length (runs (commit old u)) \<and> jss_effect (commit old u) \<noteq> Some r
     \<and> cleanups (snd (runs (commit old u) ! r)) = cleanups (snd (runs u ! r))"
  using assms
  by (auto simp: commit_def Let_def run_effect_def run_cleanup_def wf_for_def nth_append
      split: option.splits)

lemma transition_keeps:
  assumes "effect_wf u" and "r < length (runs u)" and "jss_effect u \<noteq> Some r"
  shows "r < length (runs (transition f u)) \<and> jss_effect (transition f u) \<noteq> Some r
     \<and> cleanups (snd (runs (transition f u) ! r)) = cleanups (snd (runs u ! r))"
  unfolding transition_def
  using commit_keeps [of "state u" "u\<lparr>state := f (state u), sc_error := None\<rparr>" r] assms
  by (simp add: effect_wf_def wf_for_def split: option.splits)

lemma generate_settled_keeps:
  assumes "effect_wf u" and "r < length (runs u)" and "jss_effect u \<noteq> Some r"
  shows "r < length (runs (generate_settled i res u)) \<and> jss_effect (generate_settled i res u) \<noteq> Some r
     \<and> cleanups (snd (runs (generate_settled i res u) ! r)) = cleanups (snd (runs u ! r))"
proof (cases "i < length (in_flight u)")
  case True
  show ?thesis
  proof (cases res)
    case (Inl e)
    then show ?thesis using assms True by (simp add: generate_settled_def Let_def)
  next
    case (Inr response)
    let ?u = "u\<lparr>in_flight := take i (in_flight u) @ drop (Suc i) (in_flight u),
          state := generate_resolved (req_highlights (in_flight u ! i)) response (state u)\<rparr>"
    have "wf_for (state u) ?u"
      using assms(1) by (simp add: effect_wf_def wf_for_def split: option.splits)
    from commit_keeps [OF this, of r] assms(2,3)
    show ?thesis using Inr True by (simp add: generate_settled_def Let_def)
  qed
next
  case False
  then show ?thesis using assms by (simp add: generate_settled_def)
qed

lemma step_keeps:
  assumes "effect_wf u" and "r < length (runs u)" and "jss_effect u \<noteq> Some r"
  shows "r < length (runs (step u e)) \<and> jss_effect (step u e) \<noteq> Some r
     \<and> cleanups (snd (runs (step u e) ! r)) = cleanups (snd (runs u ! r))"
proof (cases e)
  case (GenerateSettled i res)
  then show ?thesis using generate_settled_keeps [OF assms] by simp
next
  case (StreamEvent r' ev)
  then show ?thesis using stream_event_runs [of r' ev u r] assms by simp
qed (use assms transition_keeps [OF assms] in \<open>auto simp: handleGenerateVideos_def\<close>)

lemma run_keeps:
  assumes "effect_wf u" and "r < length (runs u)" and "jss_effect u \<noteq> Some r"
  shows "cleanups (snd (runs (run u evs) ! r)) = cleanups (snd (runs u ! r))"
  using assms
proof (induction evs arbitrary: u)
  case Nil
  then show ?case by simp
next
  case (Cons e evs)
  from step_keeps [OF Cons.prems, of e] step_wf [OF Cons.prems(1), of e]
  show ?case using Cons.IH [of "step u e"] by simp
qed

lemma cleanup_cleanups: "cleanups (cleanup c) = cleanups c + 1"
  by (simp add: cleanup_def es_close_def clearTimeout_def Let_def split: option.splits)

text \<open>
  Claim C4, as amended. In a reachable state where \<open>JobStatusStream\<close> is rendered and holds an
  update with status \<open>finished\<close> and at least one artifact, the user's "Continue to Upload"
  stores the artifact list in \<open>finishedVideos\<close> and moves the step from job-status to
  upload-reels; the cleanup of the stream effect, not run before, runs at that moment, and
  whatever happens afterwards it has run exactly once.
\<close>

theorem continue_stores_and_releases_once:
  assumes "u = run initial_ui evs" and "jss_rendered (state u)"
    and "jss_status u = Some d" and "status d = Finished" and "finished_videos d \<noteq> []"
  shows "\<exists>r. jss_effect u = Some r \<and> r < length (runs u) \<and> cleanups (snd (runs u ! r)) = 0
     \<and> state (step u StatusContinue)
          = (state u)\<lparr>currentStep := upload_reels, finishedVideos := finished_videos d\<rparr>
     \<and> jss_effect (step u StatusContinue) = None
     \<and> (\<forall>evs'. cleanups (snd (runs (run (step u StatusContinue) evs') ! r)) = 1)"
proof -
  have wf: "effect_wf u"
    using assms(1) run_wf [OF initial_wf] by simp
  then obtain r where r: "jss_effect u = Some r" "r < length (runs u)"
      "cleanups (snd (runs u ! r)) = 0"
    using assms(2) by (auto simp: effect_wf_def split: option.splits)
  let ?v = "step u StatusContinue"
  have offered: "continue_offered u"
    using assms(3,4,5) by (simp add: continue_offered_def isCompleted_def)
  have st: "state ?v = (state u)\<lparr>currentStep := upload_reels, finishedVideos := finished_videos d\<rparr>"
    using assms(2,3) offered by (simp add: handleJobComplete_def)
  have v: "jss_effect ?v = None" "r < length (runs ?v)" "cleanups (snd (runs ?v ! r)) = 1"
    using assms(2,3) offered r
    by (simp_all add: transition_def commit_def Let_def handleJobComplete_def jss_rendered_def
        run_cleanup_def cleanup_cleanups)
  have wfv: "effect_wf ?v" using wf by (rule step_wf)
  have "\<forall>evs'. cleanups (snd (runs (run ?v evs') ! r)) = 1"
    using run_keeps [OF wfv v(2)] v(1,3) by simp
  with r st v(1) show ?thesis by blast
qed

theorem chosen_subset_guarded_witness:
  "guarded initial_ui
     [example_extraction, ToggleHighlight ''h1'', SelectorGenerate, example_generated, StatusBack,
      SelectorBack,
      ExtractSucceeded \<lparr>video_id = ''v1'', resp_highlights = [example_h2, example_h1], total_count = 2\<rparr>
        ''https://youtu.be/v1'' ''en'' True]
   \<and> chosen_subset (state (run initial_ui
     [example_extraction, ToggleHighlight ''h1'', SelectorGenerate, example_generated, StatusBack,
      SelectorBack,
      ExtractSucceeded \<lparr>video_id = ''v1'', resp_highlights = [example_h2, example_h1], total_count = 2\<rparr>
        ''https://youtu.be/v1'' ''en'' True]))"
  using chosen_subset_guarded [of
     "[example_extraction, ToggleHighlight ''h1'', SelectorGenerate, example_generated, StatusBack,
      SelectorBack,
      ExtractSucceeded \<lparr>video_id = ''v1'', resp_highlights = [example_h2, example_h1], total_count = 2\<rparr>
        ''https://youtu.be/v1'' ''en'' True]"]
  by (simp add: initial_ui_def initialState_def ui_defs handler_defs example_defs ids_def
      useEffect_def effect_init_def connectToStream_def cleanup_def es_close_def Let_def)

text \<open>
  Claim C2 as stated fails: after a generation with \<open>h1\<close> chosen, going back to url-submit and
  completing a fresh extraction that returns only \<open>h2\<close> leaves \<open>h1\<close> chosen;
  \<open>handleHighlightsSuccess\<close> replaces \<open>highlights\<close> and keeps \<open>selectedHighlights\<close>.
\<close>

theorem chosen_subset_counterexample:
  "\<not> chosen_subset (state (run initial_ui
      [example_extraction, ToggleHighlight ''h1'', SelectorGenerate, example_generated,
       StatusBack, SelectorBack, example_extraction2]))"
  by (simp add: initial_ui_def initialState_def ui_defs handler_defs example_defs
      chosen_subset_def ids_def useEffect_def effect_init_def connectToStream_def cleanup_def
      es_close_def Let_def)

text \<open>
  Claim C4 as stated fails: when the update \<open>finished\<close> with one artifact has been delivered,
  the step is still job-status, \<open>finishedVideos\<close> is empty and no cleanup has run; nothing is
  stored unless the user continues, and "Start Over" leaves the artifacts unstored.
\<close>

theorem terminal_update_counterexample:
  "currentStep (state (run initial_ui example_to_finished)) = job_status
   \<and> finishedVideos (state (run initial_ui example_to_finished)) = []
   \<and> jss_status (run initial_ui example_to_finished) = Some example_finished
   \<and> map (cleanups \<circ> snd) (runs (run initial_ui example_to_finished)) = [0]
   \<and> currentStep (state (run initial_ui (example_to_finished @ [StatusBack]))) = highlights_select
   \<and> finishedVideos (state (run initial_ui (example_to_finished @ [StatusBack]))) = []"
  by (simp add: initial_ui_def initialState_def ui_defs handler_defs example_defs
      useEffect_def effect_init_def stream_defs cleanup_def Let_def)

theorem continue_stores_and_releases_once_witness:
  "jss_rendered (state (run initial_ui example_to_finished))
   \<and> jss_status (run initial_ui example_to_finished) = Some example_finished
   \<and> status example_finished = Finished \<and> finished_videos example_finished \<noteq> []
   \<and> finishedVideos (state (step (run initial_ui example_to_finished) StatusContinue)) = [''out/a.mp4'']
   \<and> currentStep (state (step (run initial_ui example_to_finished) StatusContinue)) = upload_reels
   \<and> (\<exists>r. jss_effect (run initial_ui example_to_finished) = Some r
        \<and> (\<forall>evs'. cleanups (snd (runs (run (step (run initial_ui example_to_finished) StatusContinue) evs') ! r)) = 1))"
proof -
  let ?u = "run initial_ui example_to_finished"
  have h: "jss_rendered (state ?u)" "jss_status ?u = Some example_finished"
    "status example_finished = Finished" "finished_videos example_finished \<noteq> []"
    by (simp_all add: initial_ui_def initialState_def ui_defs handler_defs example_defs
      useEffect_def effect_init_def stream_defs Let_def)
  from continue_stores_and_releases_once [OF refl h]
  obtain r where r: "jss_effect ?u = Some r"
     "state (step ?u StatusContinue)
          = (state ?u)\<lparr>currentStep := upload_reels, finishedVideos := finished_videos example_finished\<rparr>"
     "\<forall>evs'. cleanups (snd (runs (run (step ?u StatusContinue) evs') ! r)) = 1"
    by blast
  have fv: "finished_videos example_finished = [''out/a.mp4'']"
    by (simp add: example_finished_def)
  from h r fv show ?thesis by auto
qed

text \<open>
  Claim C5, as amended. Going back from upload-reels to job-status changes \<open>currentStep\<close>
  only: \<open>jobId\<close>, \<open>finishedVideos\<close>, \<open>selectedHighlights\<close> and the rest are unchanged. The
  earlier runs of the stream effect are left as they are. \<open>JobStatusStream\<close> is mounted
  again, and when the preserved \<open>jobId\<close> is not empty its effect runs and opens one new
  connection to the stream of that job, with a retry count of zero.
\<close>

theorem back_to_job_status_reconnects:
  assumes "currentStep (state u) = upload_reels"
  shows "state (step u UploadBack) = (state u)\<lparr>currentStep := job_status\<rparr>
     \<and> (job_of (state u) \<noteq> [] \<longrightarrow>
          runs (step u UploadBack)
            = runs u @ [(jss_instance u + 1,
                 \<lparr>retryCount = 0, retryTimeout = None, eventSource = 0,
                  sources = [createJobStream (job_of (state u))], timers = [],
                  stream_job = job_of (state u), cleanups = 0\<rparr>)]
          \<and> jss_effect (step u UploadBack) = Some (length (runs u)))
     \<and> (job_of (state u) = [] \<longrightarrow> runs (step u UploadBack) = runs u)"
  using assms
  by (simp add: transition_def commit_def Let_def handleBackToJobStatus_def jss_rendered_def
      run_effect_def useEffect_def connectToStream_def effect_init_def job_of_def)

theorem back_to_job_status_reconnects_witness:
  "currentStep (state (run initial_ui (example_to_finished @ [StatusContinue]))) = upload_reels
   \<and> job_of (state (run initial_ui (example_to_finished @ [StatusContinue]))) = ''j1''
   \<and> jobId (state (step (run initial_ui (example_to_finished @ [StatusContinue])) UploadBack)) = Some ''j1''
   \<and> finishedVideos (state (step (run initial_ui (example_to_finished @ [StatusContinue])) UploadBack)) = [''out/a.mp4'']
   \<and> selectedHighlights (state (step (run initial_ui (example_to_finished @ [StatusContinue])) UploadBack)) = [example_h1]
   \<and> length (runs (step (run initial_ui (example_to_finished @ [StatusContinue])) UploadBack)) = 2"
proof -
  let ?u = "run initial_ui (example_to_finished @ [StatusContinue])"
  have h: "currentStep (state ?u) = upload_reels"
    by (simp add: initial_ui_def initialState_def ui_defs handler_defs example_defs
      useEffect_def effect_init_def stream_defs cleanup_def Let_def)
  have v: "job_of (state ?u) = ''j1''" "jobId (state ?u) = Some ''j1''"
    "finishedVideos (state ?u) = [''out/a.mp4'']" "selectedHighlights (state ?u) = [example_h1]"
    "length (runs ?u) = 1"
    by (simp_all add: initial_ui_def initialState_def ui_defs handler_defs example_defs
      useEffect_def effect_init_def stream_defs cleanup_def Let_def)
  from back_to_job_status_reconnects [OF h] h v show ?thesis by simp
qed

text \<open>
  Claim C5 as stated fails: in the scenario, before the back-navigation the only connection
  for \<open>j1\<close> is the closed one; after it a second, open connection for \<open>j1\<close> exists.
\<close>

theorem back_to_job_status_counterexample:
  "map (sources \<circ> snd) (runs (run initial_ui (example_to_finished @ [StatusContinue])))
     = [[\<lparr>url = ''http://localhost:8001/generate/j1/stream'', closed = True\<rparr>]]
   \<and> map (sources \<circ> snd)
       (runs (run initial_ui (example_to_finished @ [StatusContinue, UploadBack])))
     = [[\<lparr>url = ''http://localhost:8001/generate/j1/stream'', closed = True\<rparr>],
        [\<lparr>url = ''http://localhost:8001/generate/j1/stream'', closed = False\<rparr>]]"
  by (simp add: initial_ui_def initialState_def ui_defs handler_defs example_defs
      useEffect_def effect_init_def stream_defs cleanup_def Let_def API_BASE_URL_def)

text \<open>
  Claim C6, at the input where the code departs from it. In highlights-select with \<open>h1\<close>
  selected, two clicks on "Generate" before any response send two \<open>generateVideos\<close> requests:
  neither \<open>HighlightsSelector\<close> nor \<open>handleGenerateVideos\<close> has a loading flag.
\<close>

theorem generate_twice_two_calls:
  "in_flight (run initial_ui
      [example_extraction, ToggleHighlight ''h1'', SelectorGenerate, SelectorGenerate])
   = [\<lparr>video_url = ''https://youtu.be/v1'', req_highlights = [example_h1]\<rparr>,
      \<lparr>video_url = ''https://youtu.be/v1'', req_highlights = [example_h1]\<rparr>]"
  by (simp add: initial_ui_def initialState_def ui_defs handler_defs example_defs)

lemma step_shape:
  "(\<exists>u'. step u e = commit (state u) u' \<and> runs u' = runs u \<and> jss_effect u' = jss_effect u
        \<and> jss_instance u' = jss_instance u)
   \<or> (\<exists>r ev. step u e = stream_event r ev u)
   \<or> (state (step u e) = state u \<and> runs (step u e) = runs u
        \<and> jss_instance (step u e) = jss_instance u \<and> jss_effect (step u e) = jss_effect u
        \<and> jss_status (step u e) = jss_status u \<and> jss_error (step u e) = jss_error u)"
proof (cases e)
  case (GenerateSettled i res)
  show ?thesis
  proof (cases "i < length (in_flight u)")
    case True
    then show ?thesis using GenerateSettled
      by (cases res) (auto simp: generate_settled_def Let_def)
  next
    case False
    then show ?thesis using GenerateSettled by (simp add: generate_settled_def)
  qed
next
  case (StreamEvent r ev)
  then show ?thesis by auto
qed (auto simp: transition_def handleGenerateVideos_def)

lemma apply_setters_instance [simp]: "jss_instance (foldl apply_setter u out) = jss_instance u"
proof (induction out arbitrary: u)
  case Nil
  then show ?case by simp
next
  case (Cons a out)
  then show ?case by (cases a) simp_all
qed

lemma run_cleanup_runs:
  "length (runs (run_cleanup u)) = length (runs u)
   \<and> (r < length (runs u) \<longrightarrow> fst (runs (run_cleanup u) ! r) = fst (runs u ! r))"
proof (cases "jss_effect u")
  case None
  then show ?thesis by (simp add: run_cleanup_def)
next
  case (Some x)
  then show ?thesis
    by (cases "x = r") (simp_all add: run_cleanup_def)
qed

lemma commit_cases:
  obtains (same) "runs (commit old u) = runs u" "jss_instance (commit old u) = jss_instance u"
      "jss_rendered old = jss_rendered (state u)"
    | (rerun) c where "jss_rendered old" "jss_rendered (state u)"
      "runs (commit old u) = runs (run_cleanup u) @ [(jss_instance u, c)]"
      "jss_instance (commit old u) = jss_instance u"
    | (unmount) "jss_rendered old" "\<not> jss_rendered (state u)"
      "runs (commit old u) = runs (run_cleanup u)" "jss_instance (commit old u) = jss_instance u"
    | (mount) c where "\<not> jss_rendered old" "jss_rendered (state u)"
      "runs (commit old u) = runs u @ [(jss_instance u + 1, c)]"
      "jss_instance (commit old u) = jss_instance u + 1"
proof -
  have sel: "runs (run_cleanup (u\<lparr>selectedIds := x\<rparr>)) = runs (run_cleanup u)"
    "jss_instance (run_cleanup w) = jss_instance w" for x w
    by (simp_all add: run_cleanup_def split: option.splits)
  show thesis
  proof (cases "jss_rendered old")
    case True
    note old = this
    show ?thesis
    proof (cases "jss_rendered (state u)")
      case True
      then obtain c where c: "useEffect (job_of (state u)) = Some c"
        using useEffect_Some [of "job_of (state u)"] by (auto simp: jss_rendered_def)
      show ?thesis
      proof (cases "job_of (state u) = job_of old")
        case True
        with old \<open>jss_rendered (state u)\<close> show ?thesis
          by (intro same) (simp_all add: commit_def Let_def)
      next
        case False
        with old \<open>jss_rendered (state u)\<close> c show ?thesis
          by (intro rerun [of c]) (simp_all add: commit_def Let_def run_effect_def sel)
      qed
    next
      case False
      with old show ?thesis
        by (intro unmount) (simp_all add: commit_def Let_def sel)
    qed
  next
    case False
    note old = this
    show ?thesis
    proof (cases "jss_rendered (state u)")
      case True
      then obtain c where c: "useEffect (job_of (state u)) = Some c"
        using useEffect_Some [of "job_of (state u)"] by (auto simp: jss_rendered_def)
      with old True show ?thesis
        by (intro mount [of c]) (simp_all add: commit_def Let_def run_effect_def)
    next
      case False
      with old show ?thesis
        by (intro same) (simp_all add: commit_def Let_def)
    qed
  qed
qed

lemma commit_runs:
  assumes "r < length (runs u)"
  shows "r < length (runs (commit old u)) \<and> fst (runs (commit old u) ! r) = fst (runs u ! r)"
  using assms run_cleanup_runs [of u r]
  by (cases old u rule: commit_cases) (simp_all add: nth_append)

lemma stream_event_inst:
  "length (runs (stream_event r ev u)) = length (runs u)
   \<and> fst (runs (stream_event r ev u) ! i) = fst (runs u ! i)
   \<and> jss_instance (stream_event r ev u) = jss_instance u"
proof (cases "r < length (runs u)")
  case True
  then show ?thesis
    by (cases "i = r") (simp_all add: stream_event_def Let_def split_def)
next
  case False
  then show ?thesis by (simp add: stream_event_def)
qed

lemma step_runs:
  assumes "r < length (runs u)"
  shows "r < length (runs (step u e)) \<and> fst (runs (step u e) ! r) = fst (runs u ! r)"
proof -
  from step_shape [of u e] show ?thesis
  proof (elim disjE exE conjE)
    fix u' assume "step u e = commit (state u) u'" "runs u' = runs u"
    then show ?thesis using commit_runs [of r u' "state u"] assms by simp
  next
    fix r' ev assume "step u e = stream_event r' ev u"
    then show ?thesis using stream_event_inst [of r' ev u r] assms by simp
  next
    assume "runs (step u e) = runs u"
    then show ?thesis using assms by simp
  qed
qed

lemma inst_bound_iff:
  "inst_bound u = (\<forall>i < length (runs u). fst (runs u ! i) \<le> jss_instance u)"
  by (simp add: inst_bound_def list_all_length)

lemma commit_bound:
  assumes "inst_bound u"
  shows "inst_bound (commit old u)"
proof (cases old u rule: commit_cases)
  case same
  then show ?thesis using assms by (simp add: inst_bound_iff)
next
  case (rerun c)
  then show ?thesis using assms run_cleanup_runs [of u]
    by (auto simp: inst_bound_iff nth_append)
next
  case unmount
  then show ?thesis using assms run_cleanup_runs [of u]
    by (auto simp: inst_bound_iff)
next
  case (mount c)
  then show ?thesis using assms
    by (auto simp: inst_bound_iff nth_append intro: le_SucI)
qed

lemma step_bound: "inst_bound u \<Longrightarrow> inst_bound (step u e)"
proof -
  assume b: "inst_bound u"
  from step_shape [of u e] show ?thesis
  proof (elim disjE exE conjE)
    fix u' assume "step u e = commit (state u) u'" "runs u' = runs u" "jss_instance u' = jss_instance u"
    moreover from this b have "inst_bound u'" by (simp add: inst_bound_def)
    ultimately show ?thesis by (simp add: commit_bound)
  next
    fix r ev assume "step u e = stream_event r ev u"
    then show ?thesis using b stream_event_inst [of r ev u]
      by (simp add: inst_bound_iff)
  next
    assume "runs (step u e) = runs u" "jss_instance (step u e) = jss_instance u"
    then show ?thesis using b by (simp add: inst_bound_def)
  qed
qed

lemma run_bound: "inst_bound u \<Longrightarrow> inst_bound (run u evs)"
  by (induction evs arbitrary: u) (simp_all add: step_bound)

lemma initial_bound: "inst_bound initial_ui"
  by (simp add: inst_bound_def initial_ui_def)

lemma commit_left_behind:
  assumes "n \<le> jss_instance u" and "\<not> jss_rendered old \<or> n < jss_instance u"
  shows "left_behind n (commit old u)"
  using assms
  by (cases old u rule: commit_cases) (auto simp: left_behind_def)

lemma step_left_behind: "left_behind n w \<Longrightarrow> left_behind n (step w e)"
proof -
  assume l: "left_behind n w"
  from step_shape [of w e] show ?thesis
  proof (elim disjE exE conjE)
    fix u' assume s: "step w e = commit (state w) u'" and "jss_instance u' = jss_instance w"
    with l have "n \<le> jss_instance u'" "\<not> jss_rendered (state w) \<or> n < jss_instance u'"
      by (auto simp: left_behind_def)
    then show ?thesis unfolding s by (rule commit_left_behind)
  next
    fix r ev assume "step w e = stream_event r ev w"
    then show ?thesis using l stream_event_inst [of r ev w] by (simp add: left_behind_def)
  next
    assume "state (step w e) = state w" "jss_instance (step w e) = jss_instance w"
    then show ?thesis using l by (simp add: left_behind_def)
  qed
qed

lemma stream_event_dropped:
  assumes "r < length (runs w)" and "fst (runs w ! r) \<le> n" and "left_behind n w"
  shows "state (stream_event r ev w) = state w \<and> jss_status (stream_event r ev w) = jss_status w
     \<and> jss_error (stream_event r ev w) = jss_error w"
  using assms by (auto simp: stream_event_def Let_def split_def left_behind_def)

lemma run_left_behind:
  assumes "left_behind n v" and "r < length (runs v)"
  shows "left_behind n (run v evs) \<and> r < length (runs (run v evs))
     \<and> fst (runs (run v evs) ! r) = fst (runs v ! r)"
  using assms
proof (induction evs arbitrary: v)
  case Nil
  then show ?case by simp
next
  case (Cons e evs)
  from step_left_behind [OF Cons.prems(1), of e] step_runs [OF Cons.prems(2), of e]
  show ?case using Cons.IH [of "step v e"] by simp
qed

lemma leaving_runs_cleanup:
  assumes "jss_rendered (state u)" and "\<not> jss_rendered (state (step u e))"
    and "jss_effect u = Some r0" and "r0 < length (runs u)"
  shows "cleanups (snd (runs (step u e) ! r0)) = cleanups (snd (runs u ! r0)) + 1
     \<and> jss_effect (step u e) = None \<and> length (runs (step u e)) = length (runs u)
     \<and> jss_instance (step u e) = jss_instance u"
proof -
  from step_shape [of u e] show ?thesis
  proof (elim disjE exE conjE)
    fix u' assume s: "step u e = commit (state u) u'" and u': "runs u' = runs u"
      "jss_effect u' = jss_effect u" "jss_instance u' = jss_instance u"
    from assms(2) s have "\<not> jss_rendered (state u')" by simp
    then show ?thesis using assms(1,3,4) u' unfolding s
      by (simp add: commit_def Let_def run_cleanup_def cleanup_cleanups split: option.splits)
  next
    fix r ev assume "step u e = stream_event r ev u"
    then show ?thesis using assms(1,2) by simp
  next
    assume "state (step u e) = state u"
    then show ?thesis using assms(1,2) by simp
  qed
qed

text \<open>
  Claim C1. Take any reachable state in which \<open>JobStatusStream\<close> is rendered, and any event
  after which it is not: the job-status stage has been left, forward or backward. That event
  runs the cleanup of the current run of the effect, and React holds no cleanup afterwards.
  From then on, whatever else happens, an event of any run of the effect made so far (a
  message, an open or an error of any of its connections, also of one made by a reconnection
  and still open, or the expiry of one of its timers) changes neither the campaign state nor
  the \<open>status\<close> and \<open>error\<close> of the page: the setters it calls belong to a component instance
  that is unmounted for good, and React drops them.
\<close>

theorem no_delivery_after_leaving:
  assumes "u = run initial_ui evs" and "jss_rendered (state u)"
    and "\<not> jss_rendered (state (step u e))" and "r < length (runs u)"
  shows "jss_effect (step u e) = None
     \<and> (\<exists>r0. jss_effect u = Some r0
            \<and> cleanups (snd (runs (step u e) ! r0)) = cleanups (snd (runs u ! r0)) + 1)
     \<and> (\<forall>evs' ev.
           state (step (run (step u e) evs') (StreamEvent r ev)) = state (run (step u e) evs')
         \<and> jss_status (step (run (step u e) evs') (StreamEvent r ev))
              = jss_status (run (step u e) evs')
         \<and> jss_error (step (run (step u e) evs') (StreamEvent r ev))
              = jss_error (run (step u e) evs'))"
proof -
  let ?v = "step u e" and ?n = "jss_instance u"
  have wf: "effect_wf u" using assms(1) run_wf [OF initial_wf] by simp
  then obtain r0 where r0: "jss_effect u = Some r0" "r0 < length (runs u)"
    using assms(2) by (auto simp: effect_wf_def split: option.splits)
  note lv = leaving_runs_cleanup [OF assms(2,3) r0]
  have bound: "inst_bound u" using assms(1) run_bound [OF initial_bound] by simp
  then have inst: "fst (runs u ! r) \<le> ?n"
    using assms(4) by (simp add: inst_bound_def list_all_length)
  have rv: "r < length (runs ?v)" "fst (runs ?v ! r) = fst (runs u ! r)"
    using step_runs [OF assms(4), of e] by simp_all
  have lb: "left_behind ?n ?v"
    using assms(3) lv by (simp add: left_behind_def)
  have "state (step (run ?v evs') (StreamEvent r ev)) = state (run ?v evs')
         \<and> jss_status (step (run ?v evs') (StreamEvent r ev)) = jss_status (run ?v evs')
         \<and> jss_error (step (run ?v evs') (StreamEvent r ev)) = jss_error (run ?v evs')"
    for evs' ev
  proof -
    from run_left_behind [OF lb rv(1), of evs']
    have "left_behind ?n (run ?v evs')" "r < length (runs (run ?v evs'))"
      "fst (runs (run ?v evs') ! r) \<le> ?n"
      using rv(2) inst by simp_all
    from stream_event_dropped [OF this(2,3,1), of ev] show ?thesis by simp
  qed
  with lv r0 show ?thesis by blast
qed

theorem no_delivery_after_leaving_witness:
  "jss_rendered (state (run initial_ui example_reconnected))
   \<and> \<not> jss_rendered (state (step (run initial_ui example_reconnected) StatusBack))
   \<and> length (runs (run initial_ui example_reconnected)) = 1
   \<and> live (snd (runs (step (run initial_ui example_reconnected) StatusBack) ! 0)) 1
   \<and> jss_status (step (run initial_ui example_reconnected) StatusBack) = None
   \<and> jss_status (step (step (run initial_ui example_reconnected) StatusBack)
        (StreamEvent 0 (OnMessage 1 (Some example_update)))) = None
   \<and> state (step (step (run initial_ui example_reconnected) StatusBack)
        (StreamEvent 0 (OnMessage 1 (Some example_update))))
      = state (step (run initial_ui example_reconnected) StatusBack)"
proof -
  let ?u = "run initial_ui example_reconnected"
  let ?v = "step ?u StatusBack"
  let ?ev = "StreamEvent 0 (OnMessage 1 (Some example_update))"
  have h: "jss_rendered (state ?u)" "\<not> jss_rendered (state ?v)" "length (runs ?u) = 1"
    "live (snd (runs ?v ! 0)) 1" "jss_status ?v = None"
    by (simp_all add: initial_ui_def initialState_def ui_defs handler_defs example_defs
      example_reconnected_def useEffect_def effect_init_def stream_defs cleanup_def Let_def
      split_def)
  have r: "0 < length (runs ?u)" using h(3) by linarith
  from no_delivery_after_leaving [OF refl h(1,2) r]
  have "state (step (run ?v []) ?ev) = state (run ?v [])"
    "jss_status (step (run ?v []) ?ev) = jss_status (run ?v [])"
    by blast+
  then have d: "state (step ?v ?ev) = state ?v" "jss_status (step ?v ?ev) = jss_status ?v"
    by (simp_all only: run_Nil)
  from h d show ?thesis by (simp del: run_Cons run_Nil step.simps)
qed

section \<open>Properties of the forms\<close>

lemma split_on_nonempty: "split_on d s \<noteq> []"
  by (induction s) (auto split: list.splits)

lemma split_on_single: "d \<notin> set s \<Longrightarrow> split_on d s = [s]"
  by (induction s) auto

lemma split_on_many: "d \<in> set s \<Longrightarrow> \<exists>r r' rs. split_on d s = r # r' # rs"
proof (induction s)
  case Nil
  then show ?case by simp
next
  case (Cons c cs)
  show ?case
  proof (cases "c = d")
    case True
    then show ?thesis using split_on_nonempty [of d cs]
      by (cases "split_on d cs") auto
  next
    case False
    with Cons.prems have "d \<in> set cs" by simp
    from Cons.IH [OF this] show ?thesis using False by auto
  qed
qed

lemma basename_Cons:
  "basename (c # cs) =
     (if CHR ''/'' \<in> set cs then basename cs else if c = CHR ''/'' then cs else c # cs)"
  by (auto simp: basename_def takeWhile_append takeWhile_eq_all_conv [THEN iffD2])

lemma last_split_on: "last (split_on CHR ''/'' s) = basename s"
proof (induction s)
  case Nil
  then show ?case by (simp add: basename_def)
next
  case (Cons c cs)
  show ?case
  proof (cases "CHR ''/'' \<in> set cs")
    case True
    from split_on_many [OF True] obtain r r' rs where "split_on CHR ''/'' cs = r # r' # rs"
      by blast
    then show ?thesis using Cons True by (simp add: basename_Cons)
  next
    case False
    then show ?thesis by (simp add: basename_Cons split_on_single)
  qed
qed

lemma find_map: "find P (map f xs) = map_option f (find (\<lambda>x. P (f x)) xs)"
  by (induction xs) auto

lemma replace_first_remove: "replace_first pat [] s = remove_first pat s"
proof (induction s)
  case Nil
  then show ?case by (auto simp: remove_first_def)
next
  case (Cons c cs)
  have upt: "[0..<Suc (Suc (length cs))] = 0 # map Suc [0..<Suc (length cs)]"
    using upt_conv_Cons [of 0 "Suc (Suc (length cs))"] map_Suc_upt [of 0 "Suc (length cs)"]
    by simp
  show ?case
  proof (cases "take (length pat) (c # cs) = pat")
    case True
    then show ?thesis by (simp add: remove_first_def upt del: upt_Suc)
  next
    case False
    then show ?thesis using Cons
      by (simp add: remove_first_def upt find_map del: upt_Suc split: option.splits)
  qed
qed

lemma highlightTitles_fold:
  "fold (\<lambda>h m. m(seg_id h \<mapsto> title h)) hs m0 k =
     (case filter (\<lambda>h. seg_id h = k) hs of
        [] \<Rightarrow> m0 k
      | m # ms \<Rightarrow> Some (title (last (m # ms))))"
  by (induction hs arbitrary: m0) (auto split: list.splits)

lemma highlightTitles_last:
  "highlightTitles hs k =
     (case filter (\<lambda>h. seg_id h = k) hs of [] \<Rightarrow> None | m # ms \<Rightarrow> Some (title (last (m # ms))))"
  by (simp add: highlightTitles_def highlightTitles_fold)

lemma obj_assign_apply:
  "obj_assign p v m k =
     (if k = p \<and> \<not> (p = proto_key \<and> m p = None) then Some v else m k)"
  by (auto simp: obj_assign_def)

lemma titles_fold:
  "fold (\<lambda>p m. obj_assign p (g p) m) fvs m0 path =
     (if path \<in> set fvs \<and> (path \<noteq> proto_key \<or> m0 path \<noteq> None) then Some (g path)
      else m0 path)"
proof (induction fvs arbitrary: m0)
  case Nil
  then show ?case by simp
next
  case (Cons p ps)
  have "fold (\<lambda>p m. obj_assign p (g p) m) (p # ps) m0 path
          = fold (\<lambda>p m. obj_assign p (g p) m) ps (obj_assign p (g p) m0) path"
    by simp
  also have "\<dots> = (if path \<in> set ps
                       \<and> (path \<noteq> proto_key \<or> obj_assign p (g p) m0 path \<noteq> None)
                    then Some (g path) else obj_assign p (g p) m0 path)"
    by (rule Cons.IH)
  also have "\<dots> = (if path \<in> set (p # ps) \<and> (path \<noteq> proto_key \<or> m0 path \<noteq> None)
                    then Some (g path) else m0 path)"
    by (auto simp: obj_assign_apply)
  finally show ?case .
qed

lemma initial_titles_own:
  "titles (upload_form_init up fvs hs) path =
     (if path \<in> set fvs \<and> path \<noteq> proto_key then Some (initial_title up hs path) else None)"
  by (simp add: upload_form_init_def initialTitles_def titles_fold)

lemma filename_of_basename: "filename_of path = remove_first ''.mp4'' (basename path)"
  by (simp add: filename_of_def pop_def split_on_nonempty last_split_on replace_first_remove Let_def)

lemma initial_title_name:
  "initial_title up hs path = title_of_name up hs (remove_first ''.mp4'' (basename path))"
  by (simp add: initial_title_def title_of_name_def filename_of_basename replace_prefix_def
      strip_prefix_def highlightTitles_last Let_def split: list.splits)

lemma remove_first_is_suffix:
  assumes early: "\<And>k. k < length b - length pat \<Longrightarrow> take (length pat) (drop k b) \<noteq> pat"
  shows "remove_first pat b = strip_suffix pat b"
proof -
  let ?P = "\<lambda>k. take (length pat) (drop k b) = pat"
  let ?n = "length b" and ?l = "length pat"
  have late: "k = ?n - ?l \<and> ?l \<le> ?n" if "?P k" "k \<le> ?n" for k
  proof -
    from that(1) have "length (take ?l (drop k b)) = ?l" by simp
    then have "k + ?l \<le> ?n" using that(2) by (simp add: min_def split: if_splits)
    moreover have "\<not> k < ?n - ?l" using early that(1) by blast
    ultimately show ?thesis by simp
  qed
  show ?thesis
  proof (cases "?l \<le> ?n \<and> drop (?n - ?l) b = pat")
    case True
    then have here: "?P (?n - ?l)" by simp
    have "find ?P [0..<Suc ?n] = Some (?n - ?l)"
      unfolding find_Some_iff
    proof (intro exI [of _ "?n - ?l"] conjI allI impI)
      show "?n - ?l < length [0..<Suc ?n]" by simp
      show "?P ([0..<Suc ?n] ! (?n - ?l))" using here by (simp del: upt_Suc)
      show "?n - ?l = [0..<Suc ?n] ! (?n - ?l)" by (simp del: upt_Suc)
      fix j assume "j < ?n - ?l"
      then show "\<not> ?P ([0..<Suc ?n] ! j)" using early [of j] by (simp del: upt_Suc)
    qed
    then show ?thesis using True by (simp add: remove_first_def strip_suffix_def del: upt_Suc)
  next
    case False
    have "\<not> ?P k" if "k \<le> ?n" for k
    proof
      assume p: "?P k"
      from late [OF p that] have k: "k = ?n - ?l" "?l \<le> ?n" by simp_all
      with p have "drop (?n - ?l) b = pat" by simp
      with k False show False by simp
    qed
    then have "find ?P [0..<Suc ?n] = None"
      by (simp add: find_None_iff less_Suc_eq_le del: upt_Suc)
    then show ?thesis using False by (auto simp: remove_first_def strip_suffix_def simp del: upt_Suc)
  qed
qed

lemma remove_first_suffix:
  assumes "suffix_only b"
  shows "remove_first ''.mp4'' b = strip_suffix ''.mp4'' b"
proof (rule remove_first_is_suffix)
  fix k assume "k < length b - length ''.mp4''"
  then show "take (length ''.mp4'') (drop k b) \<noteq> ''.mp4''"
    using assms by (simp add: suffix_only_def list_all_iff eval_nat_numeral)
qed

lemma find_filter_distinct:
  assumes "distinct (map seg_id hs)"
  shows "(case find (\<lambda>h. seg_id h = k) hs of Some h \<Rightarrow> g h | None \<Rightarrow> fb)
       = (case filter (\<lambda>h. seg_id h = k) hs of [] \<Rightarrow> fb | m # ms \<Rightarrow> g (last (m # ms)))"
  using assms
proof (induction hs)
  case Nil
  then show ?case by simp
next
  case (Cons h hs)
  show ?case
  proof (cases "seg_id h = k")
    case True
    with Cons.prems have "\<forall>x\<in>set hs. seg_id x \<noteq> k"
      by (auto simp: image_iff)
    then have "filter (\<lambda>h. seg_id h = k) hs = []"
      by (simp add: filter_empty_conv)
    with True show ?thesis by simp
  next
    case False
    with Cons show ?thesis by simp
  qed
qed

lemma convention_claimed:
  assumes "distinct (map seg_id hs)" and "list_all (\<lambda>h. title h \<noteq> []) hs"
  shows "convention_title up hs path = claimed_title up hs path"
proof -
  let ?ident = "strip_prefix ''out_'' (strip_suffix ''.mp4'' (basename path))"
  have nonempty: "title (last (m # ms)) \<noteq> []" if "filter (\<lambda>h. seg_id h = ?ident) hs = m # ms" for m ms
  proof -
    have "last (m # ms) \<in> set (filter (\<lambda>h. seg_id h = ?ident) hs)"
      using that last_in_set [of "m # ms"] by simp
    then show ?thesis using assms(2) by (simp add: list_all_iff)
  qed
  show ?thesis
    using find_filter_distinct [OF assms(1), where k = ?ident and g = title
        and fb = "capitalized up (underscores_to_spaces ?ident)"] nonempty
    by (simp add: convention_title_def title_of_name_def claimed_title_def Let_def
        split: list.splits)
qed

text \<open>
  Claim C9, as amended. For every finished video path other than \<open>__proto__\<close> in whose
  basename \<open>.mp4\<close> occurs at the end only or not at all, the initial title read from \<open>titles\<close>
  is \<open>convention_title\<close>: with the identifier being the basename with the suffix \<open>.mp4\<close> and
  the prefix \<open>out_\<close> stripped, it is the title of the last selected highlight with that
  identifier when there is one and its title is not empty, and otherwise (no such highlight,
  or an empty title) the identifier with underscores replaced by spaces and its first
  character in upper case. It is the title the claim states whenever, in addition, the
  identifiers of the selected highlights do not repeat and no selected highlight has an
  empty title.
\<close>

theorem initial_titles_by_convention:
  assumes "path \<in> set fvs" and "path \<noteq> ''__proto__''" and "suffix_only (basename path)"
  shows "obj_get (titles (upload_form_init toUpperCase fvs hs)) path
           = Str (convention_title toUpperCase hs path)
     \<and> (distinct (map seg_id hs) \<and> list_all (\<lambda>h. title h \<noteq> []) hs
        \<longrightarrow> obj_get (titles (upload_form_init toUpperCase fvs hs)) path
              = Str (claimed_title toUpperCase hs path))"
proof -
  from assms(2) have key: "path \<noteq> proto_key" unfolding proto_key_def .
  have own: "titles (upload_form_init toUpperCase fvs hs) path
               = Some (convention_title toUpperCase hs path)"
    using assms(1) key remove_first_suffix [OF assms(3)]
    by (simp add: initial_titles_own initial_title_name convention_title_def)
  then have "obj_get (titles (upload_form_init toUpperCase fvs hs)) path
               = Str (convention_title toUpperCase hs path)"
    by (simp add: obj_get_def)
  then show ?thesis using convention_claimed [of hs toUpperCase path] by simp
qed

lemmas title_defs = upload_form_init_def initialTitles_def initial_title_def filename_of_def pop_def
  replace_prefix_def underscores_to_spaces_def capitalized_def highlightTitles_def ascii_upper_def
  convention_title_def title_of_name_def claimed_title_def basename_def remove_first_def
  strip_prefix_def strip_suffix_def uniq_def obj_get_def obj_assign_def prototype_keys_def
  proto_key_def

theorem initial_titles_by_convention_witness:
  "''out/out_h1.mp4'' \<in> set [''out/out_my_clip.mp4'', ''out/out_h1.mp4'']
   \<and> ''out/out_h1.mp4'' \<noteq> ''__proto__'' \<and> suffix_only (basename ''out/out_h1.mp4'')
   \<and> obj_get (titles (upload_form_init ascii_upper [''out/out_my_clip.mp4'', ''out/out_h1.mp4'']
        [example_h2, example_h1])) ''out/out_h1.mp4'' = Str ''Hook''
   \<and> obj_get (titles (upload_form_init ascii_upper [''out/out_my_clip.mp4'', ''out/out_h1.mp4'']
        [example_h2, example_h1])) ''out/out_my_clip.mp4'' = Str ''My clip''"
proof -
  have h1: "suffix_only (basename ''out/out_h1.mp4'')"
    and h2: "suffix_only (basename ''out/out_my_clip.mp4'')"
    by code_simp+
  have c1: "convention_title ascii_upper [example_h2, example_h1] ''out/out_h1.mp4'' = ''Hook''"
    by (simp add: title_defs example_h1_def example_h2_def Let_def)
  have c2: "convention_title ascii_upper [example_h2, example_h1] ''out/out_my_clip.mp4'' = ''My clip''"
    by (simp add: title_defs example_h1_def example_h2_def Let_def)
  from initial_titles_by_convention [of "''out/out_h1.mp4''" "[''out/out_my_clip.mp4'', ''out/out_h1.mp4'']"
      ascii_upper "[example_h2, example_h1]"]
    initial_titles_by_convention [of "''out/out_my_clip.mp4''" "[''out/out_my_clip.mp4'', ''out/out_h1.mp4'']"
      ascii_upper "[example_h2, example_h1]"] h1 h2 c1 c2
  show ?thesis by simp
qed

text \<open>
  Claim C9 as stated fails: for \<open>out/out_h1.mp4\<close> and the selected highlight \<open>h1\<close> with an empty
  title the code gives the fallback \<open>H1\<close> where the claim gives the highlight's (empty)
  title, because of the test \<open>if (highlightTitle)\<close>.
\<close>

theorem initial_title_counterexample:
  "obj_get (titles (upload_form_init ascii_upper [''out/out_h1.mp4'']
       [\<lparr>seg_id = ''h1'', start_time = ''00:00:10,000'', end_time = ''00:01:00,000'', title = []\<rparr>]))
     ''out/out_h1.mp4'' = Str ''H1''
   \<and> claimed_title ascii_upper
       [\<lparr>seg_id = ''h1'', start_time = ''00:00:10,000'', end_time = ''00:01:00,000'', title = []\<rparr>]
       ''out/out_h1.mp4'' = []"
  by (simp add: title_defs Let_def)

text \<open>
  Two inputs outside the amended claim, where the code misses what it attempts. The comment
  in the code gives \<open>out_abc123.mp4\<close> becoming \<open>abc123\<close>, but \<open>replace('.mp4', '')\<close> removes the
  first occurrence, which need not be the extension. And for the path \<open>__proto__\<close> the
  assignment to the plain object stores nothing, so reading the title gives a member of
  \<open>Object.prototype\<close>.
\<close>

lemma first_mp4_removed:
  "obj_get (titles (upload_form_init ascii_upper [''out/out_a.mp4b.mp4''] [])) ''out/out_a.mp4b.mp4''
     = Str ''Ab.mp4''"
  by (simp add: title_defs Let_def)

lemma proto_title_inherited:
  "titles (upload_form_init toUpperCase fvs hs) ''__proto__'' = None
   \<and> obj_get (titles (upload_form_init toUpperCase fvs hs)) ''__proto__'' = Inherited"
  using initial_titles_own [of toUpperCase fvs hs proto_key]
  by (simp add: obj_get_def prototype_keys_def proto_key_def)

lemma rejected_nonempty:
  "generate_rejected e \<noteq> []" "extract_rejected e \<noteq> []" "upload_rejected e \<noteq> []"
  by (cases e; simp)+

text \<open>
  A click on the upload button sends a request only when \<open>finishedVideos\<close> and
  \<open>selectedVideos\<close> are not empty; the request then has one entry for each selected video, in
  order, so it is not empty, and no entry has the empty string as its title: an entry whose
  title in the form is the empty string or missing is sent with "Generated Short". Every
  title is a string that is not empty when each selected path has an own entry in \<open>titles\<close>
  or is not the name of a member of \<open>Object.prototype\<close>; for the initial form this holds of
  every finished video other than \<open>__proto__\<close>. With no finished video or no selected video
  the click does nothing (there is no button).
\<close>

lemma upload_request_titles:
  assumes "upload_click fvs f = (f', Some reels)"
  shows "fvs \<noteq> [] \<and> selectedVideos f \<noteq> [] \<and> reels \<noteq> []
      \<and> map file_path reels = selectedVideos f
      \<and> list_all (\<lambda>r. reel_title r \<noteq> Str [] \<and> reel_title r \<noteq> Undefined) reels
      \<and> list_all (\<lambda>r. titles f (file_path r) = Some [] \<longrightarrow> reel_title r = Str ''Generated Short'')
           reels
      \<and> (list_all (\<lambda>p. titles f p \<noteq> None \<or> p \<notin> set prototype_keys) (selectedVideos f)
          \<longrightarrow> list_all (\<lambda>r. \<exists>t. reel_title r = Str t \<and> t \<noteq> []) reels)"
proof -
  from assms have g: "fvs \<noteq> []" "selectedVideos f \<noteq> []" and r: "reels = reelsToUpload f"
    by (auto simp: upload_click_def handleUpload_def split: if_splits)
  have paths: "map file_path reels = selectedVideos f"
    by (simp add: r reelsToUpload_def comp_def)
  have a: "list_all (\<lambda>r. reel_title r \<noteq> Str [] \<and> reel_title r \<noteq> Undefined) reels"
    by (simp add: r reelsToUpload_def list_all_iff split: js_value.splits)
  have b: "list_all (\<lambda>r. titles f (file_path r) = Some [] \<longrightarrow> reel_title r = Str ''Generated Short'')
           reels"
    by (simp add: r reelsToUpload_def obj_get_def list_all_iff)
  have c: "list_all (\<lambda>r. \<exists>t. reel_title r = Str t \<and> t \<noteq> []) reels"
    if "list_all (\<lambda>p. titles f p \<noteq> None \<or> p \<notin> set prototype_keys) (selectedVideos f)"
  proof -
    have "\<exists>t. reel_title x = Str t \<and> t \<noteq> []" if x: "x \<in> set reels" for x
    proof -
      from x obtain q where q: "q \<in> set (selectedVideos f)"
        and xq: "reel_title x = (case obj_get (titles f) q of
                             Str t \<Rightarrow> if t \<noteq> [] then Str t else Str ''Generated Short''
                           | Inherited \<Rightarrow> Inherited
                           | Undefined \<Rightarrow> Str ''Generated Short'')"
        by (auto simp: r reelsToUpload_def)
      from q \<open>list_all _ (selectedVideos f)\<close>
      have "titles f q \<noteq> None \<or> q \<notin> set prototype_keys"
        by (simp add: list_all_iff)
      then have "obj_get (titles f) q \<noteq> Inherited"
        by (auto simp: obj_get_def split: option.splits)
      then show ?thesis using xq by (cases "obj_get (titles f) q") auto
    qed
    then show ?thesis by (simp add: list_all_iff)
  qed
  from g paths a b c show ?thesis by auto
qed

lemma upload_needs_videos:
  "fvs = [] \<or> selectedVideos f = [] \<Longrightarrow> upload_click fvs f = (f, None)"
  by (auto simp: upload_click_def)

lemma initial_form_titles_own:
  "''__proto__'' \<notin> set fvs \<Longrightarrow>
     list_all (\<lambda>p. titles (upload_form_init up fvs hs) p \<noteq> None \<or> p \<notin> set prototype_keys)
       (selectedVideos (upload_form_init up fvs hs))"
proof -
  assume "''__proto__'' \<notin> set fvs"
  then have np: "proto_key \<notin> set fvs" unfolding proto_key_def .
  have sel: "set (selectedVideos (upload_form_init up fvs hs)) = set fvs"
    by (simp add: upload_form_init_def uniq_def)
  show ?thesis
    unfolding list_all_iff sel using np by (auto simp: initial_titles_own)
qed

text \<open>
  Claim C10, at the input where the code departs from it. With the one finished video
  \<open>__proto__\<close>, selected as every video is at first, the click on the upload button sends a
  request whose entry has as title not a string but the member of \<open>Object.prototype\<close> that
  \<open>titles["__proto__"]\<close> reads: the initial assignment stored no title, and the inherited
  value is truthy, so the fallback "Generated Short" is not taken.
\<close>

theorem upload_proto_title_not_string:
  "upload_click [''__proto__''] (upload_form_init ascii_upper [''__proto__''] [])
     = ((upload_form_init ascii_upper [''__proto__''] [])\<lparr>up_error := None, up_loading := True\<rparr>,
        Some [\<lparr>file_path = ''__proto__'', reel_title = Inherited\<rparr>])"
  by (simp add: upload_click_def handleUpload_def reelsToUpload_def title_defs)

text \<open>
  Claim C8. When a call that drives a forward transition is rejected, whatever is thrown:
  for \<open>generateVideos\<close>, the campaign state (so its stage) is unchanged and the error of
  \<open>StepContainer\<close> holds one message, and a further click on "Generate" sends the request
  again; for \<open>extractHighlights\<close> and \<open>uploadReels\<close>, the form makes no call of \<open>onSuccess\<close>,
  so no event reaches the campaign state, its error holds one message, and a further click
  sends the same request again. The three messages are not empty.
\<close>

theorem remote_failure_keeps_stage:
  "(i < length (in_flight u) \<longrightarrow>
      state (step u (GenerateSettled i (Inl e))) = state u
      \<and> sc_error (step u (GenerateSettled i (Inl e))) = Some (generate_rejected e)
      \<and> (currentStep (state u) = highlights_select \<and> selectedIds u \<noteq> [] \<longrightarrow>
           in_flight (step (step u (GenerateSettled i (Inl e))) SelectorGenerate)
             = in_flight (step u (GenerateSettled i (Inl e)))
               @ [\<lparr>video_url = videoUrl (state u),
                    req_highlights = handleGenerate (highlights (state u)) (selectedIds u)\<rparr>]))
   \<and> (handleSubmit f0 = (f, Some req) \<longrightarrow>
        snd (handleSubmit_settled f (Inl e)) = None
        \<and> form_error (fst (handleSubmit_settled f (Inl e))) = Some (extract_rejected e)
        \<and> snd (submit_click (fst (handleSubmit_settled f (Inl e)))) = Some req)
   \<and> (upload_click fvs g0 = (g, Some reels) \<longrightarrow>
        snd (handleUpload_settled g (Inl e)) = None
        \<and> up_error (fst (handleUpload_settled g (Inl e))) = Some (upload_rejected e)
        \<and> snd (upload_click fvs (fst (handleUpload_settled g (Inl e)))) = Some reels)
   \<and> generate_rejected e \<noteq> [] \<and> extract_rejected e \<noteq> [] \<and> upload_rejected e \<noteq> []"
proof -
  have gen: "i < length (in_flight u) \<longrightarrow>
      state (step u (GenerateSettled i (Inl e))) = state u
      \<and> sc_error (step u (GenerateSettled i (Inl e))) = Some (generate_rejected e)
      \<and> (currentStep (state u) = highlights_select \<and> selectedIds u \<noteq> [] \<longrightarrow>
           in_flight (step (step u (GenerateSettled i (Inl e))) SelectorGenerate)
             = in_flight (step u (GenerateSettled i (Inl e)))
               @ [\<lparr>video_url = videoUrl (state u),
                    req_highlights = handleGenerate (highlights (state u)) (selectedIds u)\<rparr>])"
    by (simp add: generate_settled_def Let_def handleGenerateVideos_def)
  have sub: "handleSubmit f0 = (f, Some req) \<longrightarrow>
        snd (handleSubmit_settled f (Inl e)) = None
        \<and> form_error (fst (handleSubmit_settled f (Inl e))) = Some (extract_rejected e)
        \<and> snd (submit_click (fst (handleSubmit_settled f (Inl e)))) = Some req"
    by (auto simp: handleSubmit_def handleSubmit_settled_def submit_click_def Let_def
        split: if_splits)
  have up: "upload_click fvs g0 = (g, Some reels) \<longrightarrow>
        snd (handleUpload_settled g (Inl e)) = None
        \<and> up_error (fst (handleUpload_settled g (Inl e))) = Some (upload_rejected e)
        \<and> snd (upload_click fvs (fst (handleUpload_settled g (Inl e)))) = Some reels"
    by (auto simp: upload_click_def handleUpload_def handleUpload_settled_def reelsToUpload_def
        split: if_splits)
  from gen sub up rejected_nonempty [of e] show ?thesis by blast
qed

theorem remote_failure_keeps_stage_witness:
  "length (in_flight (run initial_ui [example_extraction, ToggleHighlight ''h1'', SelectorGenerate])) = 1
   \<and> currentStep (state (step (run initial_ui [example_extraction, ToggleHighlight ''h1'', SelectorGenerate])
        (GenerateSettled 0 (Inl (APIError 500 ''boom''))))) = highlights_select
   \<and> sc_error (step (run initial_ui [example_extraction, ToggleHighlight ''h1'', SelectorGenerate])
        (GenerateSettled 0 (Inl (APIError 500 ''boom''))))
        = Some ''Failed to start video generation: boom''
   \<and> snd (handleSubmit example_form)
        = Some \<lparr>hr_video_url = ''https://youtu.be/v1'', subtitle_language = ''en'', no_auto_subs = False\<rparr>
   \<and> snd (submit_click (fst (handleSubmit_settled (fst (handleSubmit example_form))
          (Inl (APIError 500 ''boom'')))))
        = Some \<lparr>hr_video_url = ''https://youtu.be/v1'', subtitle_language = ''en'', no_auto_subs = False\<rparr>
   \<and> snd (upload_click [''out/a.mp4''] (fst (handleUpload_settled
          (fst (upload_click [''out/a.mp4''] (upload_form_init ascii_upper [''out/a.mp4''] [example_h1])))
          (Inl (APIError 500 ''boom'')))))
        = Some [\<lparr>file_path = ''out/a.mp4'', reel_title = Str ''A''\<rparr>]"
proof -
  let ?u = "run initial_ui [example_extraction, ToggleHighlight ''h1'', SelectorGenerate]"
  let ?e = "APIError 500 ''boom''"
  let ?req = "\<lparr>hr_video_url = ''https://youtu.be/v1'', subtitle_language = ''en'', no_auto_subs = False\<rparr>"
  let ?g0 = "upload_form_init ascii_upper [''out/a.mp4''] [example_h1]"
  let ?reels = "[\<lparr>file_path = ''out/a.mp4'', reel_title = Str ''A''\<rparr>]"
  have u: "length (in_flight ?u) = 1" "currentStep (state ?u) = highlights_select"
    by (simp_all add: initial_ui_def initialState_def ui_defs handler_defs example_defs)
  have s: "handleSubmit example_form = (fst (handleSubmit example_form), Some ?req)"
    by (simp add: handleSubmit_def example_form_def trim_def js_space_def validateYouTubeURL_def
        after_def word_char_def Let_def)
  have g: "upload_click [''out/a.mp4''] ?g0 = (fst (upload_click [''out/a.mp4''] ?g0), Some ?reels)"
    by (simp add: upload_click_def handleUpload_def reelsToUpload_def title_defs example_h1_def
        Let_def)
  have u0: "0 < length (in_flight ?u)" using u(1) by linarith
  note T = remote_failure_keeps_stage [of 0 ?u ?e example_form "fst (handleSubmit example_form)" ?req
      "[''out/a.mp4'']" ?g0 "fst (upload_click [''out/a.mp4''] ?g0)" ?reels]
  from T u0 have a: "state (step ?u (GenerateSettled 0 (Inl ?e))) = state ?u"
    and b: "sc_error (step ?u (GenerateSettled 0 (Inl ?e))) = Some (generate_rejected ?e)"
    by blast+
  from T s have c: "snd (submit_click (fst (handleSubmit_settled (fst (handleSubmit example_form))
          (Inl ?e)))) = Some ?req"
    by blast
  from T g have d: "snd (upload_click [''out/a.mp4''] (fst (handleUpload_settled
          (fst (upload_click [''out/a.mp4''] ?g0)) (Inl ?e)))) = Some ?reels"
    by blast
  have a': "currentStep (state (step ?u (GenerateSettled 0 (Inl ?e)))) = highlights_select"
    using a u(2) by (simp only:)
  have b': "sc_error (step ?u (GenerateSettled 0 (Inl ?e)))
        = Some ''Failed to start video generation: boom''"
    using b by (simp only: generate_rejected.simps append.simps)
  have s': "snd (handleSubmit example_form) = Some ?req"
    using s by (metis snd_conv)
  from u(1) a' b' s' c d show ?thesis by blast
qed

text \<open>
  While the call of \<open>URLSubmitForm\<close> or of \<open>UploadReelsForm\<close> is unresolved, a further click on
  its button sends nothing: the button is disabled by \<open>loading\<close>.
\<close>

lemma submit_in_flight_noop:
  "handleSubmit f0 = (f, Some req) \<Longrightarrow> submit_click f = (f, None)"
  by (auto simp: handleSubmit_def submit_click_def Let_def split: if_splits)

lemma upload_in_flight_noop:
  "upload_click fvs g0 = (g, Some reels) \<Longrightarrow> upload_click fvs g = (g, None)"
  by (auto simp: upload_click_def handleUpload_def split: if_splits)

end
